theory Spec2Isabelle
  imports Main "HOL-Library.Sublist"
begin

section \<open>Strings\<close>

text \<open>
  A JavaScript string is a sequence of UTF-16 code units; the model keeps the code units
  below 256, so a string is a \<^typ>\<open>char list\<close> and \<open>length\<close> is the source's
  \<^verbatim>\<open>.length\<close>. The white space of \<^verbatim>\<open>trim\<close> and of the regular
  expression classes \<^verbatim>\<open>\s\<close>, \<^verbatim>\<open>\S\<close> is the same set of characters.
  On such a string \<^verbatim>\<open>toLowerCase\<close> works code unit by code unit: the letters \<open>A\<close>
  to \<open>Z\<close> and the capital letters of Latin-1 move up by 32, every other one stays.
  Beyond these code units the built-in can change the length of a string (one unit
  can become two), so \<open>toLowerCase\<close> below stands for the built-in on the strings of
  the model only, and what is proved about case for every input takes the lowercasing
  as a parameter.
\<close>

definition is_space :: "char \<Rightarrow> bool" where
  "is_space c = (c \<in> set [CHR 0x09, CHR 0x0A, CHR 0x0B, CHR 0x0C, CHR 0x0D, CHR 0x20, CHR 0xA0])"

definition non_space :: "char \<Rightarrow> bool" where
  "non_space c = (\<not> is_space c)"

definition is_digit :: "char \<Rightarrow> bool" where
  "is_digit c = (48 \<le> (of_char c :: nat) \<and> (of_char c :: nat) \<le> 57)"

definition lower_char :: "char \<Rightarrow> char" where
  "lower_char c =
     (let n = (of_char c :: nat)
      in if (65 \<le> n \<and> n \<le> 90) \<or> (192 \<le> n \<and> n \<le> 222 \<and> n \<noteq> 215)
         then char_of (n + 32) else c)"

definition toLowerCase :: "string \<Rightarrow> string" where
  "toLowerCase s = map lower_char s"

definition trim :: "string \<Rightarrow> string" where
  "trim s = rev (dropWhile is_space (rev (dropWhile is_space s)))"

definition startsWith :: "string \<Rightarrow> string \<Rightarrow> bool" where
  "startsWith s p = prefix p s"

definition includes_str :: "string \<Rightarrow> string \<Rightarrow> bool" where
  "includes_str content text = sublist text content"

text \<open>\<^verbatim>\<open>s.split(sep)\<close> for a one-character separator: one more part than separators.\<close>

fun split_on :: "char \<Rightarrow> string \<Rightarrow> string list" where
  "split_on sep [] = [[]]"
| "split_on sep (c # cs) =
     (if c = sep then [] # split_on sep cs
      else (case split_on sep cs of p # ps \<Rightarrow> (c # p) # ps | [] \<Rightarrow> [[c]]))"

text \<open>
  \<^verbatim>\<open>replace(/c/g, r)\<close> for a one-character pattern: every occurrence, left to right.
\<close>

definition replace_all :: "char \<Rightarrow> string \<Rightarrow> string \<Rightarrow> string" where
  "replace_all c r s = concat (map (\<lambda>x. if x = c then r else [x]) s)"

text \<open>
  \<^verbatim>\<open>line.match(/KEY(CLASS+)/)\<close> for a literal \<open>key\<close> followed by one greedy
  character class with a capture: the leftmost position where the key is followed by at
  least one character of the class; the capture is the longest run of the class there.
\<close>

fun regex_capture :: "string \<Rightarrow> (char \<Rightarrow> bool) \<Rightarrow> string \<Rightarrow> string option" where
  "regex_capture key cls [] = None"
| "regex_capture key cls (c # cs) =
     (let cap = takeWhile cls (drop (length key) (c # cs))
      in if prefix key (c # cs) \<and> cap \<noteq> [] then Some cap else regex_capture key cls cs)"

text \<open>
  A JavaScript number that came out of \<^verbatim>\<open>parseInt\<close>: an integer up to
  9007199254740992 (two to the power 53) in size, which a double holds exactly, a
  larger one (of which the model keeps the sign only: the double is the nearest one
  or, for long digit strings, what the implementation makes of it), or NaN.
\<close>

datatype jsnum = Num int | Inexact bool | NaN

definition decimal_value :: "string \<Rightarrow> nat" where
  "decimal_value ds = foldl (\<lambda>n c. 10 * n + ((of_char c :: nat) - 48)) 0 ds"

definition js_integer :: "bool \<Rightarrow> nat \<Rightarrow> jsnum" where
  "js_integer neg n =
     (if int n \<le> 9007199254740992
      then Num (if neg then - int n else int n) else Inexact neg)"

definition parseInt :: "string \<Rightarrow> jsnum" where
  "parseInt s =
     (let t = dropWhile is_space s;
          neg = (case t of c # r \<Rightarrow> c = CHR 0x2D | [] \<Rightarrow> False);
          u = (case t of c # r \<Rightarrow> if c = CHR 0x2D \<or> c = CHR 0x2B then r else t | [] \<Rightarrow> t);
          ds = takeWhile is_digit u
      in if ds = [] then NaN else js_integer neg (decimal_value ds))"

fun decimal :: "nat \<Rightarrow> string" where
  "decimal n =
     (if n < 10 then [char_of (48 + n)] else decimal (n div 10) @ [char_of (48 + n mod 10)])"

definition show_int :: "int \<Rightarrow> string" where
  "show_int i = (if i < 0 then CHR 0x2D # decimal (nat (- i)) else decimal (nat i))"

text \<open>Truthiness of \<^verbatim>\<open>number | null\<close> and of \<^verbatim>\<open>string | null | undefined\<close>.\<close>

definition truthy_num :: "jsnum option \<Rightarrow> bool" where
  "truthy_num v =
     (case v of Some (Num n) \<Rightarrow> n \<noteq> 0 | Some (Inexact neg) \<Rightarrow> True | _ \<Rightarrow> False)"

definition truthy_str :: "string option \<Rightarrow> bool" where
  "truthy_str v = (case v of Some s \<Rightarrow> s \<noteq> [] | None \<Rightarrow> False)"

section \<open>Errors\<close>

text \<open>
  Every \<^verbatim>\<open>throw\<close> of the source is a value: the errors of the scripting layer
  (\<open>PermissionsError\<close>, \<open>AppleScriptError\<close> with the standard error text), the error
  \<^verbatim>\<open>execSync\<close> throws (with the exit status when there is one), the two errors of
  \<^verbatim>\<open>sendKeystroke\<close> with the text they quote, and the \<open>TypeError\<close> of a method call
  on \<^verbatim>\<open>undefined\<close>.
\<close>

datatype error =
    PermissionsError
  | AppleScriptError string
  | ExecError "int option"
  | UnknownModifier string
  | UnknownKey string
  | TypeError

section \<open>The scripting layer (applescript)\<close>

text \<open>
  The scripts the driver sends to \<^verbatim>\<open>osascript\<close>, one constructor for each template of
  the source. \<open>Keystroke t m\<close> is the template \<^verbatim>\<open>keystroke "t" m\<close>: \<open>t\<close> is the text
  spliced between the quotes as it is, \<open>m\<close> the \<^verbatim>\<open>using ... down\<close> clause when
  there is one. \<open>KeyCode n m\<close> is \<^verbatim>\<open>key code n m\<close>.
\<close>

datatype modifier = ControlDown | OptionDown | ShiftDown | CommandDown

text \<open>
  What \<^verbatim>\<open>KEY_CODES[name]\<close> can be when it is not \<^verbatim>\<open>undefined\<close>: a number of the
  table, or what the object inherits from \<^verbatim>\<open>Object.prototype\<close> under that name.
\<close>

datatype key_code = Code nat | Inherited string

datatype script =
    TerminalName
  | Activate
  | DoScriptAttach string
  | FrontWindowId
  | FrontWindowContents
  | Keystroke string "modifier option"
  | KeyCode key_code "modifier option"
  | CloseFrontWindow
  | SetRowsCols int int

text \<open>
  The world outside the process, as the source reaches it: \<^verbatim>\<open>zmx list\<close>,
  \<^verbatim>\<open>zmx kill "name"\<close>, \<^verbatim>\<open>osascript\<close> with a script, the clock and the busy
  wait. Each is a parameter: the theorems hold for every behaviour of the collaborators.
  A command returns the error \<^verbatim>\<open>execSync\<close> throws (for a script: already classified
  by \<^verbatim>\<open>runAppleScript\<close>) or its standard output, and the world after it.
\<close>

record 'w external =
  zmx_list :: "'w \<Rightarrow> error + string"
  zmx_kill :: "string \<Rightarrow> 'w \<Rightarrow> error option \<times> 'w"
  osascript :: "script \<Rightarrow> 'w \<Rightarrow> (error + string) \<times> 'w"
  date_now :: "'w \<Rightarrow> int"
  spin_until :: "int \<Rightarrow> 'w \<Rightarrow> 'w"

definition runAppleScript :: "'w external \<Rightarrow> script \<Rightarrow> 'w \<Rightarrow> (error + string) \<times> 'w" where
  "runAppleScript ext scr w =
     (case osascript ext scr w of
        (Inl e, w') \<Rightarrow> (Inl e, w')
      | (Inr result, w') \<Rightarrow> (Inr (trim result), w'))"

definition openTerminalWithSession :: "'w external \<Rightarrow> string \<Rightarrow> 'w \<Rightarrow> (error + jsnum) \<times> 'w" where
  "openTerminalWithSession ext sessionName w =
     (case runAppleScript ext (DoScriptAttach sessionName) w of
        (Inl e, w') \<Rightarrow> (Inl e, w')
      | (Inr windowId, w') \<Rightarrow> (Inr (parseInt windowId), w'))"

definition getTerminalWindowId :: "'w external \<Rightarrow> 'w \<Rightarrow> jsnum option \<times> 'w" where
  "getTerminalWindowId ext w =
     (case runAppleScript ext FrontWindowId w of
        (Inl e, w') \<Rightarrow> (None, w')
      | (Inr result, w') \<Rightarrow>
          (case parseInt result of
             Num n \<Rightarrow> (if n > 0 then Some (Num n) else None, w')
           | Inexact neg \<Rightarrow> (if \<not> neg then Some (Inexact neg) else None, w')
           | NaN \<Rightarrow> (None, w')))"

definition activateTerminal :: "'w external \<Rightarrow> 'w \<Rightarrow> error option \<times> 'w" where
  "activateTerminal ext w =
     (case runAppleScript ext Activate w of
        (Inl e, w') \<Rightarrow> (Some e, w')
      | (Inr r, w') \<Rightarrow> (None, w'))"

definition getTerminalContent :: "'w external \<Rightarrow> 'w \<Rightarrow> (error + string) \<times> 'w" where
  "getTerminalContent ext w = runAppleScript ext FrontWindowContents w"

definition closeTerminalWindow :: "'w external \<Rightarrow> 'w \<Rightarrow> error option \<times> 'w" where
  "closeTerminalWindow ext w =
     (case runAppleScript ext CloseFrontWindow w of
        (Inl e, w') \<Rightarrow> (Some e, w')
      | (Inr r, w') \<Rightarrow> (None, w'))"

text \<open>
  \<^verbatim>\<open>typeText\<close>: backslashes are doubled first, then every double quote gets a
  backslash; the result is spliced into \<^verbatim>\<open>keystroke "..."\<close>.
\<close>

definition escapeText :: "string \<Rightarrow> string" where
  "escapeText text =
     replace_all (CHR 0x22) [CHR 0x5C, CHR 0x22] (replace_all (CHR 0x5C) [CHR 0x5C, CHR 0x5C] text)"

definition typeText_script :: "string \<Rightarrow> script" where
  "typeText_script text = Keystroke (escapeText text) None"

definition typeText :: "'w external \<Rightarrow> string \<Rightarrow> 'w \<Rightarrow> error option \<times> 'w" where
  "typeText ext text w =
     (case runAppleScript ext (typeText_script text) w of
        (Inl e, w') \<Rightarrow> (Some e, w')
      | (Inr r, w') \<Rightarrow> (None, w'))"

definition key_code_table :: "(string \<times> nat) list" where
  "key_code_table =
     [(''enter'', 36), (''return'', 36), (''tab'', 48), (''escape'', 53), (''esc'', 53),
      (''space'', 49), (''delete'', 51), (''backspace'', 51), (''up'', 126), (''down'', 125),
      (''left'', 123), (''right'', 124), (''home'', 115), (''end'', 119), (''pageup'', 116),
      (''pagedown'', 121), (''f1'', 122), (''f2'', 120), (''f3'', 99), (''f4'', 118),
      (''f5'', 96), (''f6'', 97), (''f7'', 98), (''f8'', 100), (''f9'', 101), (''f10'', 109),
      (''f11'', 103), (''f12'', 111)]"

text \<open>
  \<^verbatim>\<open>KEY_CODES[k]\<close>, with \<open>None\<close> for \<^verbatim>\<open>undefined\<close>. The table is a plain object, so
  a name it does not have is looked up in \<^verbatim>\<open>Object.prototype\<close>; the source only looks
  up lowercased names, and of the names defined there the two that a lowercased string
  can be are \<open>constructor\<close> and \<open>__proto__\<close>.
\<close>

definition KEY_CODES :: "string \<Rightarrow> key_code option" where
  "KEY_CODES k =
     (case map_of key_code_table k of
        Some n \<Rightarrow> Some (Code n)
      | None \<Rightarrow> if k = ''constructor'' \<or> k = ''__proto__'' then Some (Inherited k) else None)"

definition modifierClause :: "string \<Rightarrow> modifier option" where
  "modifierClause m =
     (if m = ''ctrl'' \<or> m = ''control'' then Some ControlDown
      else if m = ''alt'' \<or> m = ''option'' then Some OptionDown
      else if m = ''shift'' then Some ShiftDown
      else if m = ''cmd'' \<or> m = ''command'' then Some CommandDown
      else None)"

text \<open>
  The resolution logic of \<^verbatim>\<open>sendKeystroke\<close>, before anything is sent: what a key name
  becomes. A key code with no modifier, a key code or a one-character keystroke with a
  modifier, or literal text handed to \<^verbatim>\<open>typeText\<close>; or one of the two errors.
  An inherited property is not \<^verbatim>\<open>undefined\<close> either, and is spliced after
  \<^verbatim>\<open>key code\<close> like a number. \<open>resolveKeyWith lc\<close> is the logic with \<open>lc\<close> for the
  built-in \<^verbatim>\<open>toLowerCase\<close>, whatever it does to a string; \<open>resolveKey\<close> is the logic
  on the strings of the model.
\<close>

datatype key_event =
    KeyCodeEvent key_code
  | ModifiedKeyCode key_code modifier
  | ModifiedKeystroke string modifier
  | LiteralText string

definition resolveKeyWith :: "(string \<Rightarrow> string) \<Rightarrow> string \<Rightarrow> error + key_event" where
  "resolveKeyWith lc key =
     (let lowerKey = lc key
      in if CHR 0x2B \<in> set key then
           (case split_on (CHR 0x2B) key of
              p0 # mainKey # rest \<Rightarrow>
                (let m = lc p0
                 in case modifierClause m of
                      None \<Rightarrow> Inl (UnknownModifier m)
                    | Some clause \<Rightarrow>
                        (case KEY_CODES (lc mainKey) of
                           Some keyCode \<Rightarrow> Inr (ModifiedKeyCode keyCode clause)
                         | None \<Rightarrow>
                             if length mainKey = 1 then Inr (ModifiedKeystroke mainKey clause)
                             else Inl (UnknownKey mainKey)))
            | _ \<Rightarrow> Inl TypeError)
         else
           (case KEY_CODES lowerKey of
              Some keyCode \<Rightarrow> Inr (KeyCodeEvent keyCode)
            | None \<Rightarrow> if length key = 1 then Inr (LiteralText key) else Inl (UnknownKey key)))"

definition resolveKey :: "string \<Rightarrow> error + key_event" where
  "resolveKey key = resolveKeyWith toLowerCase key"

definition event_script :: "key_event \<Rightarrow> script" where
  "event_script ev =
     (case ev of
        KeyCodeEvent keyCode \<Rightarrow> KeyCode keyCode None
      | ModifiedKeyCode keyCode clause \<Rightarrow> KeyCode keyCode (Some clause)
      | ModifiedKeystroke mainKey clause \<Rightarrow> Keystroke mainKey (Some clause)
      | LiteralText key \<Rightarrow> typeText_script key)"

definition sendKeystroke :: "'w external \<Rightarrow> string \<Rightarrow> 'w \<Rightarrow> error option \<times> 'w" where
  "sendKeystroke ext key w =
     (case resolveKey key of
        Inl e \<Rightarrow> (Some e, w)
      | Inr ev \<Rightarrow>
          (case runAppleScript ext (event_script ev) w of
             (Inl e, w') \<Rightarrow> (Some e, w')
           | (Inr r, w') \<Rightarrow> (None, w')))"

section \<open>The session registry (zmx)\<close>

record ZmxSession =
  name :: string
  pid :: "jsnum option"
  clients :: "jsnum option"

definition parse_line :: "string \<Rightarrow> ZmxSession" where
  "parse_line line =
     \<lparr>name = (case regex_capture ''session_name='' non_space line of
                Some nameMatch \<Rightarrow> nameMatch | None \<Rightarrow> trim line),
      pid = map_option parseInt (regex_capture ''pid='' is_digit line),
      clients = map_option parseInt (regex_capture ''clients='' is_digit line)\<rparr>"

definition parse_report :: "string \<Rightarrow> ZmxSession list" where
  "parse_report output =
     (let trimmed = trim output
      in if startsWith trimmed ''no sessions found'' then []
         else map parse_line (filter (\<lambda>line. length line > 0) (split_on (CHR 0x0A) trimmed)))"

definition listSessions :: "'w external \<Rightarrow> 'w \<Rightarrow> error + ZmxSession list" where
  "listSessions ext w =
     (case zmx_list ext w of
        Inr output \<Rightarrow> Inr (parse_report output)
      | Inl e \<Rightarrow> (if e = ExecError (Some 1) then Inr [] else Inl e))"

definition zmx_killSession :: "'w external \<Rightarrow> string \<Rightarrow> 'w \<Rightarrow> error option \<times> 'w" where
  "zmx_killSession ext sessionName w = zmx_kill ext sessionName w"

text \<open>The \<^verbatim>\<open>forEach\<close> of \<^verbatim>\<open>killAllSessions\<close>: the first kill that throws ends it.\<close>

fun kill_each :: "'w external \<Rightarrow> string list \<Rightarrow> 'w \<Rightarrow> error option \<times> 'w" where
  "kill_each ext [] w = (None, w)"
| "kill_each ext (n # ns) w =
     (case zmx_kill ext n w of
        (Some e, w') \<Rightarrow> (Some e, w')
      | (None, w') \<Rightarrow> kill_each ext ns w')"

definition zmx_killAllSessions :: "'w external \<Rightarrow> 'w \<Rightarrow> (error + nat) \<times> 'w" where
  "zmx_killAllSessions ext w =
     (case listSessions ext w of
        Inl e \<Rightarrow> (Inl e, w)
      | Inr sessions \<Rightarrow>
          (case kill_each ext (map name sessions) w of
             (Some e, w') \<Rightarrow> (Inl e, w')
           | (None, w') \<Rightarrow> (Inr (length sessions), w')))"

section \<open>The Terminal Manager\<close>

record TerminalManager =
  currentSession :: "string option"
  windowId :: "jsnum option"

text \<open>The fields after the constructor (its installation and permission checks passed).\<close>

definition new_manager :: TerminalManager where
  "new_manager = \<lparr>currentSession = None, windowId = None\<rparr>"

definition createSession ::
  "'w external \<Rightarrow> string \<Rightarrow> TerminalManager \<Rightarrow> 'w \<Rightarrow> (error + string \<times> jsnum) \<times> TerminalManager \<times> 'w" where
  "createSession ext sessionName m w =
     (case openTerminalWithSession ext sessionName w of
        (Inl e, w') \<Rightarrow> (Inl e, m, w')
      | (Inr wid, w') \<Rightarrow>
          (Inr (sessionName, wid), m\<lparr>currentSession := Some sessionName, windowId := Some wid\<rparr>, w'))"

definition killSession ::
  "'w external \<Rightarrow> string \<Rightarrow> TerminalManager \<Rightarrow> 'w \<Rightarrow> error option \<times> TerminalManager \<times> 'w" where
  "killSession ext sessionName m w =
     (case zmx_killSession ext sessionName w of
        (Some e, w') \<Rightarrow> (Some e, m, w')
      | (None, w') \<Rightarrow>
          (None,
           if currentSession m = Some sessionName
           then m\<lparr>currentSession := None, windowId := None\<rparr> else m,
           w'))"

definition killAllSessions ::
  "'w external \<Rightarrow> TerminalManager \<Rightarrow> 'w \<Rightarrow> (error + nat) \<times> TerminalManager \<times> 'w" where
  "killAllSessions ext m w =
     (case zmx_killAllSessions ext w of
        (Inl e, w') \<Rightarrow> (Inl e, m, w')
      | (Inr count, w') \<Rightarrow> (Inr count, m\<lparr>currentSession := None, windowId := None\<rparr>, w'))"

text \<open>The \<^verbatim>\<open>for ... of\<close> of \<^verbatim>\<open>sendKeys\<close>: the first key that throws ends it.\<close>

fun send_each :: "'w external \<Rightarrow> string list \<Rightarrow> 'w \<Rightarrow> error option \<times> 'w" where
  "send_each ext [] w = (None, w)"
| "send_each ext (key # keys) w =
     (case sendKeystroke ext key w of
        (Some e, w') \<Rightarrow> (Some e, w')
      | (None, w') \<Rightarrow> send_each ext keys w')"

definition sendKeys :: "'w external \<Rightarrow> string list \<Rightarrow> 'w \<Rightarrow> (error + nat) \<times> 'w" where
  "sendKeys ext keys w =
     (case activateTerminal ext w of
        (Some e, w') \<Rightarrow> (Inl e, w')
      | (None, w') \<Rightarrow>
          (case send_each ext keys w' of
             (Some e, w'') \<Rightarrow> (Inl e, w'')
           | (None, w'') \<Rightarrow> (Inr (length keys), w'')))"

definition manager_typeText :: "'w external \<Rightarrow> string \<Rightarrow> 'w \<Rightarrow> (error + nat) \<times> 'w" where
  "manager_typeText ext text w =
     (case activateTerminal ext w of
        (Some e, w') \<Rightarrow> (Inl e, w')
      | (None, w') \<Rightarrow>
          (case typeText ext text w' of
             (Some e, w'') \<Rightarrow> (Inl e, w'')
           | (None, w'') \<Rightarrow> (Inr (length text), w'')))"

record SessionStatus =
  sessionName :: "string option"
  isActive :: bool
  status_windowId :: "jsnum option"
  sessions :: "ZmxSession list"

definition getStatus ::
  "'w external \<Rightarrow> TerminalManager \<Rightarrow> 'w \<Rightarrow> (error + SessionStatus) \<times> TerminalManager \<times> 'w" where
  "getStatus ext m w =
     (let (m1, w1) =
            (if \<not> truthy_num (windowId m)
             then (case getTerminalWindowId ext w of (wid, w') \<Rightarrow> (m\<lparr>windowId := wid\<rparr>, w'))
             else (m, w))
      in case listSessions ext w1 of
           Inl e \<Rightarrow> (Inl e, m1, w1)
         | Inr ss \<Rightarrow>
             (Inr \<lparr>sessionName = currentSession m1,
                   isActive = (currentSession m1 \<noteq> None),
                   status_windowId = windowId m1,
                   sessions = ss\<rparr>, m1, w1))"

definition close :: "'w external \<Rightarrow> TerminalManager \<Rightarrow> 'w \<Rightarrow> error option \<times> TerminalManager \<times> 'w" where
  "close ext m w =
     (case (if truthy_num (windowId m) then closeTerminalWindow ext w else (None, w)) of
        (Some e, w') \<Rightarrow> (Some e, m, w')
      | (None, w') \<Rightarrow> (None, m\<lparr>currentSession := None, windowId := None\<rparr>, w'))"

definition restartTerminal ::
  "'w external \<Rightarrow> string option \<Rightarrow> TerminalManager \<Rightarrow> 'w \<Rightarrow>
     (error + string \<times> jsnum) \<times> TerminalManager \<times> 'w" where
  "restartTerminal ext command m w =
     (case (if truthy_num (windowId m) then closeTerminalWindow ext w else (None, w)) of
        (Some e, w1) \<Rightarrow> (Inl e, m, w1)
      | (None, w1) \<Rightarrow>
          (let w2 = (if truthy_str (currentSession m)
                     then snd (zmx_killSession ext (the (currentSession m)) w1) else w1);
               newSession =
                 (if truthy_str command then ''poof-'' @ show_int (date_now ext w2)
                  else if truthy_str (currentSession m) then the (currentSession m)
                  else ''poof-'' @ show_int (date_now ext w2))
           in case openTerminalWithSession ext newSession w2 of
                (Inl e, w3) \<Rightarrow> (Inl e, m, w3)
              | (Inr wid, w3) \<Rightarrow>
                  (let m' = m\<lparr>currentSession := Some newSession, windowId := Some wid\<rparr>
                   in if truthy_str command then
                        (case typeText ext (the command)
                                (spin_until ext (date_now ext w3 + 500) w3) of
                           (Some e, w4) \<Rightarrow> (Inl e, m', w4)
                         | (None, w4) \<Rightarrow>
                             (case sendKeystroke ext ''enter'' w4 of
                                (Some e, w5) \<Rightarrow> (Inl e, m', w5)
                              | (None, w5) \<Rightarrow> (Inr (newSession, wid), m', w5)))
                      else (Inr (newSession, wid), m', w3))))"

text \<open>
  The operations of the Manager that read or write its two fields, as the protocol layer
  calls them one after the other: it catches what they throw, and the fields stay as the
  operation left them.
\<close>

datatype manager_op =
    CreateSession string
  | KillSession string
  | KillAllSessions
  | GetStatus
  | Close
  | RestartTerminal "string option"

definition apply_op :: "'w external \<Rightarrow> manager_op \<Rightarrow> TerminalManager \<times> 'w \<Rightarrow> TerminalManager \<times> 'w" where
  "apply_op ext mop mw =
     (case mw of (m, w) \<Rightarrow>
        (case mop of
           CreateSession newSession \<Rightarrow> snd (createSession ext newSession m w)
         | KillSession newSession \<Rightarrow> snd (killSession ext newSession m w)
         | KillAllSessions \<Rightarrow> snd (killAllSessions ext m w)
         | GetStatus \<Rightarrow> snd (getStatus ext m w)
         | Close \<Rightarrow> snd (close ext m w)
         | RestartTerminal command \<Rightarrow> snd (restartTerminal ext command m w)))"

definition run_ops :: "'w external \<Rightarrow> manager_op list \<Rightarrow> TerminalManager \<times> 'w \<Rightarrow> TerminalManager \<times> 'w" where
  "run_ops ext ops mw = foldl (\<lambda>s mop. apply_op ext mop s) mw ops"

section \<open>The polling loops\<close>

text \<open>
  For the two loops the world is a clock in milliseconds and the successive calls of
  \<^verbatim>\<open>getScreenText\<close>: the \<open>k\<close>-th call returns \<open>fst (smp k)\<close> (a text, or the error
  the scripting layer throws) and takes \<open>snd (smp k)\<close> milliseconds. Reading the clock
  takes no time, and the busy wait ends at the first reading that is not before
  \<^verbatim>\<open>sleepUntil\<close>, which is \<^verbatim>\<open>sleepUntil\<close> itself unless the clock is already past it.
\<close>

type_synonym sampler = "nat \<Rightarrow> (error + string) \<times> nat"

record clock_state =
  now :: int
  calls :: nat

definition pollInterval :: int where
  "pollInterval = 100"

definition getScreenText :: "sampler \<Rightarrow> clock_state \<Rightarrow> (error + string) \<times> clock_state" where
  "getScreenText smp st =
     (fst (smp (calls st)),
      \<lparr>now = now st + int (snd (smp (calls st))), calls = Suc (calls st)\<rparr>)"

definition busy_wait :: "int \<Rightarrow> clock_state \<Rightarrow> clock_state" where
  "busy_wait sleepUntil st = (if now st < sleepUntil then st\<lparr>now := sleepUntil\<rparr> else st)"

record text_result =
  found :: bool
  elapsedMs :: int

function waitForText_loop ::
  "sampler \<Rightarrow> string \<Rightarrow> int \<Rightarrow> int \<Rightarrow> clock_state \<Rightarrow> (error + text_result) \<times> clock_state" where
  "waitForText_loop smp text timeoutMs startTime st =
     (if now st - startTime < timeoutMs then
        (case getScreenText smp st of
           (Inl e, st1) \<Rightarrow> (Inl e, st1)
         | (Inr content, st1) \<Rightarrow>
             if includes_str content text
             then (Inr \<lparr>found = True, elapsedMs = now st1 - startTime\<rparr>, st1)
             else waitForText_loop smp text timeoutMs startTime
                    (busy_wait (now st1 + pollInterval) st1))
      else (Inr \<lparr>found = False, elapsedMs = now st - startTime\<rparr>, st))"
  by pat_completeness auto
termination
  by (relation "measure (\<lambda>(smp, text, timeoutMs, startTime, st). nat (startTime + timeoutMs - now st))")
     (auto simp: getScreenText_def busy_wait_def pollInterval_def)

declare waitForText_loop.simps [simp del]

definition waitForText ::
  "sampler \<Rightarrow> string \<Rightarrow> int \<Rightarrow> clock_state \<Rightarrow> (error + text_result) \<times> clock_state" where
  "waitForText smp text timeoutMs st = waitForText_loop smp text timeoutMs (now st) st"

record stable_result =
  stable :: bool
  stable_elapsedMs :: int

function waitForStable_loop ::
  "sampler \<Rightarrow> int \<Rightarrow> int \<Rightarrow> int \<Rightarrow> string \<Rightarrow> int \<Rightarrow> clock_state \<Rightarrow>
     (error + stable_result) \<times> clock_state" where
  "waitForStable_loop smp timeoutMs stableMs startTime lastContent lastChangeTime st =
     (if now st - startTime < timeoutMs then
        (case getScreenText smp st of
           (Inl e, st1) \<Rightarrow> (Inl e, st1)
         | (Inr content, st1) \<Rightarrow>
             (let lastContent' = (if content \<noteq> lastContent then content else lastContent);
                  lastChangeTime' = (if content \<noteq> lastContent then now st1 else lastChangeTime)
              in if now st1 - lastChangeTime' \<ge> stableMs
                 then (Inr \<lparr>stable = True, stable_elapsedMs = now st1 - startTime\<rparr>, st1)
                 else waitForStable_loop smp timeoutMs stableMs startTime lastContent'
                        lastChangeTime' (busy_wait (now st1 + pollInterval) st1)))
      else (Inr \<lparr>stable = False, stable_elapsedMs = now st - startTime\<rparr>, st))"
  by pat_completeness auto
termination
  by (relation "measure (\<lambda>(smp, timeoutMs, stableMs, startTime, lastContent, lastChangeTime, st).
                    nat (startTime + timeoutMs - now st))")
     (auto simp: getScreenText_def busy_wait_def pollInterval_def)

declare waitForStable_loop.simps [simp del]

definition waitForStable ::
  "sampler \<Rightarrow> int \<Rightarrow> int \<Rightarrow> clock_state \<Rightarrow> (error + stable_result) \<times> clock_state" where
  "waitForStable smp timeoutMs stableMs st =
     (case getScreenText smp st of
        (Inl e, st0) \<Rightarrow> (Inl e, st0)
      | (Inr lastContent, st0) \<Rightarrow>
          waitForStable_loop smp timeoutMs stableMs (now st) lastContent (now st) st0)"

section \<open>Auxiliary notions of the statements\<close>

text \<open>
  Modelled from the spec: the scripting layer's reading of a string literal, which is
  AppleScript's and not code of the repository; the spec names the quote and the
  backslash as the characters with a special meaning there. \<open>read_literal\<close> reads a literal after
  its opening quote: a backslash takes the next character with it (\<open>\\\<close> and \<open>\"\<close>
  stand for the character itself, \<open>\n\<close>, \<open>\r\<close> and \<open>\t\<close> for a control character,
  any other pair is a syntax error), an unescaped double quote ends the literal. The
  result is the decoded text and the script after the closing quote, or \<open>None\<close> for a
  syntax error or a literal that never ends.
\<close>

definition unescape_char :: "char \<Rightarrow> char option" where
  "unescape_char d =
     (if d = CHR 0x5C then Some (CHR 0x5C)
      else if d = CHR 0x22 then Some (CHR 0x22)
      else if d = CHR ''n'' then Some (CHR 0x0A)
      else if d = CHR ''r'' then Some (CHR 0x0D)
      else if d = CHR ''t'' then Some (CHR 0x09)
      else None)"

fun read_literal :: "string \<Rightarrow> (string \<times> string) option" where
  "read_literal [] = None"
| "read_literal [c] = (if c = CHR 0x22 then Some ([], []) else None)"
| "read_literal (c # d # cs) =
     (if c = CHR 0x22 then Some ([], d # cs)
      else if c = CHR 0x5C then
        (case unescape_char d of
           None \<Rightarrow> None
         | Some x \<Rightarrow> map_option (\<lambda>(v, r). (x # v, r)) (read_literal cs))
      else map_option (\<lambda>(v, r). (c # v, r)) (read_literal (d # cs)))"

text \<open>What the two passes of \<open>escapeText\<close> make of one character.\<close>

definition escape_char :: "char \<Rightarrow> string" where
  "escape_char c =
     (if c = CHR 0x5C then [CHR 0x5C, CHR 0x5C]
      else if c = CHR 0x22 then [CHR 0x5C, CHR 0x22] else [c])"

text \<open>
  A small simulated world, for the concrete instances: the registry is the list of live
  session names (killing a name that is not live fails with exit status 1, as does no
  other command), every script succeeds and is recorded in \<open>sent\<close>, the script that
  opens a window starts the session it attaches to, and the front window has id 7.
\<close>

record sim_world =
  live :: "string list"
  sent :: "script list"
  clock :: int

definition sim_report :: "string list \<Rightarrow> string" where
  "sim_report ns =
     (if ns = [] then ''no sessions found in /tmp/zmx''
      else concat (map (\<lambda>n. ''session_name='' @ n @ [CHR 0x09] @ ''pid=1'' @ [CHR 0x09] @
                              ''clients=0'' @ [CHR 0x0A]) ns))"

definition sim :: "sim_world external" where
  "sim =
     \<lparr>zmx_list = (\<lambda>w. Inr (sim_report (live w))),
      zmx_kill = (\<lambda>n w. if n \<in> set (live w) then (None, w\<lparr>live := removeAll n (live w)\<rparr>)
                          else (Some (ExecError (Some 1)), w)),
      osascript = (\<lambda>scr w.
         (Inr (case scr of DoScriptAttach n \<Rightarrow> ''7'' | FrontWindowId \<Rightarrow> ''7'' | _ \<Rightarrow> []),
          w\<lparr>sent := sent w @ [scr],
            live := (case scr of
                       DoScriptAttach n \<Rightarrow> if n \<in> set (live w) then live w else live w @ [n]
                     | _ \<Rightarrow> live w)\<rparr>)),
      date_now = clock,
      spin_until = (\<lambda>t w. if clock w < t then w\<lparr>clock := t\<rparr> else w)\<rparr>"

definition sim_start :: sim_world where
  "sim_start = \<lparr>live = [], sent = [], clock = 0\<rparr>"

definition sim_two :: sim_world where
  "sim_two = \<lparr>live = [''dev'', ''test''], sent = [], clock = 0\<rparr>"

definition sim_dev :: sim_world where
  "sim_dev = \<lparr>live = [''dev''], sent = [DoScriptAttach ''dev''], clock = 0\<rparr>"

definition manager_dev :: TerminalManager where
  "manager_dev = \<lparr>currentSession = Some ''dev'', windowId = Some (Num 7)\<rparr>"

definition sim_gone :: sim_world where
  "sim_gone = \<lparr>live = [], sent = [DoScriptAttach ''dev''], clock = 0\<rparr>"

definition sim_seen :: sim_world where
  "sim_seen = \<lparr>live = [], sent = [DoScriptAttach ''dev'', FrontWindowId], clock = 0\<rparr>"

definition sim_typed :: sim_world where
  "sim_typed = \<lparr>live = [], sent = [Activate, Keystroke ''a'' None], clock = 0\<rparr>"

definition manager_window :: TerminalManager where
  "manager_window = \<lparr>currentSession = None, windowId = Some (Num 7)\<rparr>"

definition status_idle :: SessionStatus where
  "status_idle =
     \<lparr>sessionName = None, isActive = False, status_windowId = Some (Num 7), sessions = []\<rparr>"

definition status_dev :: SessionStatus where
  "status_dev =
     \<lparr>sessionName = Some ''dev'', isActive = True, status_windowId = Some (Num 7),
      sessions = [\<lparr>name = ''dev'', pid = Some (Num 1), clients = Some (Num 0)\<rparr>]\<rparr>"

text \<open>Whether the \<open>k\<close>-th call of \<^verbatim>\<open>getScreenText\<close> returns a text that contains \<open>t\<close>.\<close>

definition sample_contains :: "sampler \<Rightarrow> nat \<Rightarrow> string \<Rightarrow> bool" where
  "sample_contains smp k t =
     (case fst (smp k) of Inr content \<Rightarrow> includes_str content t | Inl e \<Rightarrow> False)"

text \<open>
  What a result \<open>r\<close> of the text loop, started at a loop head in state \<open>st\<close> and ended in
  state \<open>st'\<close>, says about the samples taken in between.
\<close>

definition text_spec ::
  "sampler \<Rightarrow> string \<Rightarrow> int \<Rightarrow> int \<Rightarrow> clock_state \<Rightarrow> text_result \<Rightarrow> clock_state \<Rightarrow> bool" where
  "text_spec smp t timeoutMs start st r st' =
     (elapsedMs r = now st' - start \<and> calls st \<le> calls st' \<and>
      (\<forall>k. calls st \<le> k \<and> k < calls st' - (if found r then 1 else 0) \<longrightarrow>
            \<not> sample_contains smp k t) \<and>
      (found r \<longrightarrow> calls st < calls st' \<and> sample_contains smp (calls st' - 1) t) \<and>
      (\<not> found r \<longrightarrow> timeoutMs \<le> elapsedMs r))"

text \<open>
  Screens for the concrete instances: a prompt that never changes and is read in no
  time, the same prompt read in 30 ms, and a screen that shows \<open>hello\<close> from the fourth
  reading on, each reading taking 7 ms. The clock starts at 0 with no call made.
\<close>

definition frozen_screen :: sampler where
  "frozen_screen k = (Inr ''$'', 0)"

definition slow_screen :: sampler where
  "slow_screen k = (Inr ''$'', 30)"

definition hello_screen :: sampler where
  "hello_screen k = (Inr (if k < 3 then ''foo'' else ''hello''), 7)"

definition clock_zero :: clock_state where
  "clock_zero = \<lparr>now = 0, calls = 0\<rparr>"

text \<open>A report made of the given lines: a newline between one line and the next.\<close>

fun join_lines :: "string list \<Rightarrow> string" where
  "join_lines [] = []"
| "join_lines [l] = l"
| "join_lines (l # m # ls) = l @ CHR 0x0A # join_lines (m # ls)"

text \<open>
  Delivering scripts: each is run by the scripting layer, in the order of the list, and
  the first that throws ends the delivery with its error.
\<close>

fun deliver :: "'w external \<Rightarrow> script list \<Rightarrow> 'w \<Rightarrow> error option \<times> 'w" where
  "deliver ext [] w = (None, w)"
| "deliver ext (scr # scrs) w =
     (case runAppleScript ext scr w of
        (Inl e, w') \<Rightarrow> (Some e, w')
      | (Inr r, w') \<Rightarrow> deliver ext scrs w')"

text \<open>
  The source text of the script \<open>Keystroke t m\<close>, as the templates of \<^verbatim>\<open>typeText\<close>
  (no modifier) and of \<^verbatim>\<open>sendKeystroke\<close> (with one) write it: \<open>keystroke_head\<close> ends
  with the quote that opens the literal, then come the spliced text, the closing quote,
  the modifier clause if there is one, and the end of the two \<^verbatim>\<open>tell\<close> blocks.
\<close>

definition keystroke_head :: string where
  "keystroke_head =
     [CHR 0x0A] @ ''tell application '' @ [CHR 0x22] @ ''System Events'' @ [CHR 0x22] @
     [CHR 0x0A] @ ''    tell process '' @ [CHR 0x22] @ ''Terminal'' @ [CHR 0x22] @
     [CHR 0x0A] @ ''        keystroke '' @ [CHR 0x22]"

definition clause_text :: "modifier \<Rightarrow> string" where
  "clause_text m =
     (case m of
        ControlDown \<Rightarrow> ''using control down''
      | OptionDown \<Rightarrow> ''using option down''
      | ShiftDown \<Rightarrow> ''using shift down''
      | CommandDown \<Rightarrow> ''using command down'')"

definition keystroke_tail :: "modifier option \<Rightarrow> string" where
  "keystroke_tail m =
     (case m of None \<Rightarrow> [] | Some clause \<Rightarrow> CHR 0x20 # clause_text clause) @
     [CHR 0x0A] @ ''    end tell'' @ [CHR 0x0A] @ ''end tell'' @ [CHR 0x0A]"

definition keystroke_source :: "string \<Rightarrow> modifier option \<Rightarrow> string" where
  "keystroke_source t m = keystroke_head @ t @ CHR 0x22 # keystroke_tail m"

definition sim_said :: sim_world where
  "sim_said =
     \<lparr>live = [],
      sent = [Keystroke [CHR ''s'', CHR ''a'', CHR ''y'', CHR 0x20, CHR 0x5C, CHR 0x22,
                         CHR ''h'', CHR ''i'', CHR 0x5C, CHR 0x22] None],
      clock = 0\<rparr>"

definition report_lines :: "string list" where
  "report_lines = [''session_name=dev pid=123 clients=2'', [], ''session_name=x'']"

section \<open>Splitting\<close>



section \<open>The key encoder\<close>

lemma key_code_table_length: "map_of key_code_table k = Some n \<Longrightarrow> 2 \<le> length k"
  by (auto simp: key_code_table_def split: if_splits)

lemma KEY_CODES_length:
  assumes "KEY_CODES k = Some v"
  shows "2 \<le> length k"
proof (cases "map_of key_code_table k")
  case None
  with assms have "k = ''constructor'' \<or> k = ''__proto__''"
    by (simp add: KEY_CODES_def split: if_splits)
  then show ?thesis by auto
next
  case (Some n)
  then show ?thesis by (rule key_code_table_length)
qed

lemma split_on_no_sep: "sep \<notin> set p \<Longrightarrow> split_on sep p = [p]"
  by (induction p) auto

lemma split_on_append:
  "sep \<notin> set p \<Longrightarrow> split_on sep (p @ sep # rest) = p # split_on sep rest"
  by (induction p) auto












lemma resolveKey_single_char:
  assumes "c \<noteq> CHR 0x2B"
  shows "resolveKey [c] = Inr (LiteralText [c])"
proof -
  have "KEY_CODES (toLowerCase [c]) = None"
    using KEY_CODES_length [of "toLowerCase [c]"]
    by (cases "KEY_CODES (toLowerCase [c])") (auto simp: toLowerCase_def)
  with assms show ?thesis by (simp add: resolveKey_def resolveKeyWith_def Let_def)
qed

text \<open>
  C4 at the key \<open>+\<close>: a single character that is not a named key, and the encoder does
  not hand it to \<^verbatim>\<open>typeText\<close>. The test for a modifier combination comes first, splits
  it into two empty parts and fails on the empty modifier. Every other single character
  is a text injection (\<open>resolveKey_single_char\<close>).
\<close>

theorem resolveKey_plus_sign:
  "length [CHR 0x2B] = 1 \<and> KEY_CODES (toLowerCase [CHR 0x2B]) = None \<and>
   resolveKey [CHR 0x2B] = Inl (UnknownModifier []) \<and>
   resolveKey [CHR 0x2B] \<noteq> Inr (LiteralText [CHR 0x2B])"
  by code_simp

section \<open>Escaping of injected text\<close>

lemma escapeText_Nil: "escapeText [] = []"
  by (simp add: escapeText_def replace_all_def)

lemma escapeText_Cons: "escapeText (c # cs) = escape_char c @ escapeText cs"
  by (simp add: escapeText_def replace_all_def escape_char_def)

lemma read_literal_quote: "read_literal (CHR 0x22 # rest) = Some ([], rest)"
  by (cases rest) simp_all

lemma read_literal_plain:
  "c \<noteq> CHR 0x22 \<Longrightarrow> c \<noteq> CHR 0x5C \<Longrightarrow> s \<noteq> [] \<Longrightarrow>
   read_literal (c # s) = map_option (\<lambda>(v, r). (c # v, r)) (read_literal s)"
  by (cases s) simp_all

lemma literal_round_trip: "read_literal (escapeText s @ CHR 0x22 # rest) = Some (s, rest)"
proof (induction s)
  case Nil
  then show ?case by (simp add: escapeText_Nil read_literal_quote)
next
  case (Cons c cs)
  then show ?case
    by (simp add: escapeText_Cons escape_char_def unescape_char_def read_literal_plain)
qed

lemma typeText_sends:
  "typeText ext t w =
     (case osascript ext (Keystroke (escapeText t) None) w of
        (Inl e, w') \<Rightarrow> (Some e, w')
      | (Inr r, w') \<Rightarrow> (None, w'))"
  by (simp add: typeText_def typeText_script_def runAppleScript_def split: prod.splits sum.splits)

text \<open>
  C9. Whatever the text \<open>t\<close>, what \<^verbatim>\<open>typeText\<close> does is one call of the scripting
  layer, with the keystroke script whose literal is the escaped text (backslashes
  doubled, then double quotes escaped): it throws what that call throws and leaves the
  world that call leaves. In the source of that script, the literal that follows
  \<^verbatim>\<open>keystroke "\<close> is read back by the scripting layer as \<open>t\<close>, character for
  character, and ends at the closing quote of the template: nothing of the text leaks
  into the rest of the script.
\<close>

theorem typeText_round_trip:
  "snd (typeText ext t w) = snd (osascript ext (Keystroke (escapeText t) None) w) \<and>
   fst (typeText ext t w) =
     (case fst (osascript ext (Keystroke (escapeText t) None) w) of
        Inl e \<Rightarrow> Some e | Inr r \<Rightarrow> None) \<and>
   typeText_script t = Keystroke (escapeText t) None \<and>
   prefix keystroke_head (keystroke_source (escapeText t) None) \<and>
   read_literal (drop (length keystroke_head) (keystroke_source (escapeText t) None)) =
     Some (t, keystroke_tail None)"
proof -
  have a: "snd (typeText ext t w) = snd (osascript ext (Keystroke (escapeText t) None) w)"
    by (simp add: typeText_sends split: prod.splits sum.splits)
  have b: "fst (typeText ext t w) =
     (case fst (osascript ext (Keystroke (escapeText t) None) w) of
        Inl e \<Rightarrow> Some e | Inr r \<Rightarrow> None)"
    by (simp add: typeText_sends split: prod.splits sum.splits)
  have c: "typeText_script t = Keystroke (escapeText t) None"
    by (simp add: typeText_script_def)
  have d: "prefix keystroke_head (keystroke_source (escapeText t) None)"
    by (simp add: keystroke_source_def)
  have "drop (length keystroke_head) (keystroke_source (escapeText t) None) =
          escapeText t @ CHR 0x22 # keystroke_tail None"
    by (simp add: keystroke_source_def)
  then have e: "read_literal (drop (length keystroke_head)
                  (keystroke_source (escapeText t) None)) = Some (t, keystroke_tail None)"
    by (simp only: literal_round_trip)
  show ?thesis
    by (intro conjI) (rule a b c d e)+
qed

theorem typeText_round_trip_witness:
  "snd (typeText sim [CHR ''s'', CHR ''a'', CHR ''y'', CHR 0x20, CHR 0x22, CHR ''h'', CHR ''i'',
                      CHR 0x22] sim_start) = sim_said \<and>
   read_literal (drop (length keystroke_head)
      (keystroke_source (escapeText [CHR ''s'', CHR ''a'', CHR ''y'', CHR 0x20, CHR 0x22,
                                     CHR ''h'', CHR ''i'', CHR 0x22]) None)) =
     Some ([CHR ''s'', CHR ''a'', CHR ''y'', CHR 0x20, CHR 0x22, CHR ''h'', CHR ''i'', CHR 0x22],
           keystroke_tail None)"
proof -
  note L = typeText_round_trip [where ext = sim and w = sim_start
      and t = "[CHR ''s'', CHR ''a'', CHR ''y'', CHR 0x20, CHR 0x22, CHR ''h'', CHR ''i'',
                CHR 0x22]"]
  have "snd (osascript sim (Keystroke (escapeText [CHR ''s'', CHR ''a'', CHR ''y'', CHR 0x20,
          CHR 0x22, CHR ''h'', CHR ''i'', CHR 0x22]) None) sim_start) = sim_said"
    by code_simp
  with L [THEN conjunct1] have a: "snd (typeText sim [CHR ''s'', CHR ''a'', CHR ''y'', CHR 0x20,
      CHR 0x22, CHR ''h'', CHR ''i'', CHR 0x22] sim_start) = sim_said"
    by (rule trans)
  show ?thesis
    by (intro conjI)
       (rule a L [THEN conjunct2, THEN conjunct2, THEN conjunct2, THEN conjunct2])+
qed

section \<open>Parsing the registry's report\<close>

lemma dropWhile_rev_append:
  assumes "p \<noteq> []" and "\<not> P (last p)"
  shows "dropWhile P (rev rest @ rev p) = dropWhile P (rev rest) @ rev p"
proof (cases "\<forall>x \<in> set (rev rest). P x")
  case True
  from assms have "dropWhile P (rev p) = rev p"
    by (cases p rule: rev_cases) auto
  with True show ?thesis by (simp add: dropWhile_append)
next
  case False
  then show ?thesis by (auto simp: dropWhile_append)
qed

lemma trim_keeps_prefix:
  assumes "p \<noteq> []" and "\<not> is_space (hd p)" and "\<not> is_space (last p)"
  shows "trim (p @ rest) = p @ rev (dropWhile is_space (rev rest))"
proof -
  from assms(1,2) have "dropWhile is_space (p @ rest) = p @ rest"
    by (cases p) auto
  then show ?thesis
    using dropWhile_rev_append [of p is_space rest] assms(1,3)
    by (simp add: trim_def)
qed

lemma parse_report_no_sessions: "parse_report (''no sessions found'' @ rest) = []"
proof -
  have "trim (''no sessions found'' @ rest) =
        ''no sessions found'' @ rev (dropWhile is_space (rev rest))"
    by (rule trim_keeps_prefix) (simp_all add: is_space_def)
  then show ?thesis
    by (simp add: parse_report_def startsWith_def Let_def)
qed

lemma regex_capture_sublist: "regex_capture key cls line = Some v \<Longrightarrow> sublist key line"
proof (induction line)
  case Nil
  then show ?case by simp
next
  case (Cons c cs)
  then show ?case
    by (auto simp: Let_def sublist_Cons_right split: if_splits)
qed

lemma regex_capture_absent: "\<not> sublist key line \<Longrightarrow> regex_capture key cls line = None"
  using regex_capture_sublist [of key cls line] by (cases "regex_capture key cls line") auto

lemma split_on_join:
  "ls \<noteq> [] \<Longrightarrow> \<forall>l \<in> set ls. sep \<notin> set l \<Longrightarrow> sep = CHR 0x0A \<Longrightarrow>
   split_on sep (join_lines ls) = ls"
proof (induction ls rule: join_lines.induct)
  case 1
  then show ?case by simp
next
  case (2 l)
  then show ?case by (simp add: split_on_no_sep)
next
  case (3 l m ls)
  then show ?case by (simp add: split_on_append)
qed

lemma trim_padded:
  assumes "\<forall>c \<in> set pad1. is_space c" and "\<forall>c \<in> set pad2. is_space c"
    and "body \<noteq> []" and "\<not> is_space (hd body)" and "\<not> is_space (last body)"
  shows "trim (pad1 @ body @ pad2) = body"
proof -
  have "dropWhile is_space (pad1 @ body @ pad2) = dropWhile is_space (body @ pad2)"
    using assms(1) by (simp add: dropWhile_append2)
  also have "\<dots> = body @ pad2"
    using assms(3,4) by (cases body) auto
  finally have a: "dropWhile is_space (pad1 @ body @ pad2) = body @ pad2" .
  have "dropWhile is_space (rev pad2 @ rev body) = dropWhile is_space (rev body)"
    using assms(2) by (simp add: dropWhile_append)
  also have "\<dots> = rev body"
    using assms(3,5) by (cases body rule: rev_cases) auto
  finally show ?thesis using a by (simp add: trim_def)
qed

lemma parse_report_lines:
  assumes "\<forall>c \<in> set pad1. is_space c" and "\<forall>c \<in> set pad2. is_space c"
    and "ls \<noteq> []" and "\<forall>l \<in> set ls. CHR 0x0A \<notin> set l"
    and "join_lines ls \<noteq> []" and "\<not> is_space (hd (join_lines ls))"
    and "\<not> is_space (last (join_lines ls))"
    and "\<not> prefix ''no sessions found'' (join_lines ls)"
  shows "parse_report (pad1 @ join_lines ls @ pad2) = map parse_line (filter (\<lambda>l. l \<noteq> []) ls)"
proof -
  have t: "trim (pad1 @ join_lines ls @ pad2) = join_lines ls"
    using assms(1,2,5,6,7) by (rule trim_padded)
  have s: "split_on (CHR 0x0A) (join_lines ls) = ls"
    using assms(3,4) by (simp add: split_on_join)
  show ?thesis
    using assms(8) unfolding parse_report_def t Let_def startsWith_def s by simp
qed

lemma regex_capture_here:
  assumes "cap \<noteq> []" and "\<forall>c \<in> set cap. cls c" and "rest = [] \<or> \<not> cls (hd rest)"
  shows "regex_capture key cls (key @ cap @ rest) = Some cap"
proof -
  have tw: "takeWhile cls (cap @ rest) = cap"
    using assms(2,3) by (cases rest) (auto simp: takeWhile_append2)
  obtain c cs where e: "key @ cap @ rest = c # cs"
    using assms(1) by (cases "key @ cap @ rest") auto
  have d: "drop (length key) (c # cs) = cap @ rest" by (simp add: e [symmetric])
  have p: "prefix key (c # cs)" by (simp add: e [symmetric])
  have "regex_capture key cls (c # cs) = Some cap"
    by (simp only: regex_capture.simps Let_def d p tw) (simp add: assms(1))
  then show ?thesis by (simp add: e)
qed

lemma prefix_stops:
  assumes "prefix key (a @ sp # s)" and "sp \<notin> set key"
  shows "prefix key a"
proof -
  from assms(1) consider "prefix key a" | k' where "key = a @ k'" and "prefix k' (sp # s)"
    by (auto simp: prefix_append)
  then show ?thesis
  proof cases
    case 1
    then show ?thesis .
  next
    case 2
    with assms(2) have "k' = []" by (cases k') auto
    with 2 show ?thesis by simp
  qed
qed

lemma regex_capture_skip:
  assumes "key \<noteq> []" and "sp \<notin> set key" and "\<not> sublist key pre"
  shows "regex_capture key cls (pre @ sp # s) = regex_capture key cls s"
  using assms(3)
proof (induction pre)
  case Nil
  have "\<not> prefix key (sp # s)"
    using assms(1,2) by (cases key) auto
  then show ?case by (simp add: Let_def)
next
  case (Cons c pre)
  have "\<not> prefix key ((c # pre) @ sp # s)"
  proof
    assume "prefix key ((c # pre) @ sp # s)"
    then have "prefix key (c # pre)" using assms(2) by (rule prefix_stops)
    then have "sublist key (c # pre)" by (rule prefix_imp_sublist)
    with Cons.prems show False by simp
  qed
  moreover have "\<not> sublist key pre"
    using Cons.prems by (auto simp: sublist_Cons_right)
  ultimately show ?case using Cons.IH by (simp add: Let_def)
qed

lemma space_not_digit: "is_space c \<Longrightarrow> \<not> is_digit c"
  by (auto simp: is_space_def is_digit_def)

lemma parseInt_digits:
  assumes "ds \<noteq> []" and "\<forall>c \<in> set ds. is_digit c"
  shows "parseInt ds = js_integer False (decimal_value ds)"
proof -
  obtain d ds' where e: "ds = d # ds'" using assms(1) by (cases ds) auto
  with assms(2) have d: "is_digit d" by simp
  then have ns: "\<not> is_space d" using space_not_digit by blast
  from d have nm: "d \<noteq> CHR 0x2D" and np: "d \<noteq> CHR 0x2B" by (auto simp: is_digit_def)
  have tw: "takeWhile is_digit ds = ds" using assms(2) by (simp add: takeWhile_eq_all_conv)
  show ?thesis
    using ns nm np tw assms(1) unfolding e parseInt_def by (simp add: Let_def)
qed

lemma space_not_in_pid: "is_space sp \<Longrightarrow> sp \<notin> set ''pid=''"
  by (auto simp: is_space_def)

lemma space_not_in_clients: "is_space sp \<Longrightarrow> sp \<notin> set ''clients=''"
  by (auto simp: is_space_def)

lemma no_clients_in_pid:
  assumes "\<forall>c \<in> set ds. is_digit c"
  shows "\<not> sublist ''clients='' (''pid='' @ ds)"
proof
  assume "sublist ''clients='' (''pid='' @ ds)"
  then have "set ''clients='' \<subseteq> set (''pid='' @ ds)" by (rule set_mono_sublist)
  then have "CHR ''c'' \<in> set ds" by auto
  with assms have "is_digit (CHR ''c'')" by blast
  then show False by (simp add: is_digit_def)
qed

lemma pid_not_across:
  "sublist ''pid='' (''session_name='' @ n) \<longleftrightarrow> sublist ''pid='' n"
  apply (simp add: sublist_append)
  apply (auto simp: sublist_Cons_right suffix_def Cons_eq_append_conv append_eq_Cons_conv)
  done


lemma clients_not_across:
  "sublist ''clients='' (''session_name='' @ n) \<longleftrightarrow> sublist ''clients='' n"
  apply (simp add: sublist_append)
  apply (auto simp: sublist_Cons_right suffix_def Cons_eq_append_conv append_eq_Cons_conv)
  done

lemma parse_line_tokens:
  assumes n: "n \<noteq> []" "\<forall>c \<in> set n. non_space c"
    and ds: "ds \<noteq> []" "\<forall>c \<in> set ds. is_digit c"
    and ds': "ds' \<noteq> []" "\<forall>c \<in> set ds'. is_digit c"
    and sp: "is_space sp1" "is_space sp2"
    and no: "\<not> sublist ''pid='' n" "\<not> sublist ''clients='' n"
  shows "parse_line (''session_name='' @ n @ sp1 # ''pid='' @ ds @ sp2 # ''clients='' @ ds') =
           \<lparr>name = n, pid = Some (js_integer False (decimal_value ds)),
            clients = Some (js_integer False (decimal_value ds'))\<rparr>"
proof -
  let ?sn = "''session_name=''"
  let ?s2 = "''clients='' @ ds'"
  let ?s1 = "''pid='' @ ds @ sp2 # ?s2"
  have c1: "regex_capture ?sn non_space (?sn @ n @ sp1 # ?s1) = Some n"
  proof (rule regex_capture_here)
    show "n \<noteq> []" by (rule n(1))
    show "\<forall>c \<in> set n. non_space c" by (rule n(2))
    show "sp1 # ?s1 = [] \<or> \<not> non_space (hd (sp1 # ?s1))"
      using sp(1) by (simp add: non_space_def)
  qed
  have a1: "?sn @ n @ sp1 # ?s1 = (?sn @ n) @ sp1 # ?s1" by (simp only: append_assoc)
  have a2: "?s1 = (''pid='' @ ds) @ sp2 # ?s2" by (simp only: append_assoc)
  have k1: "regex_capture ''pid='' is_digit ((?sn @ n) @ sp1 # ?s1) =
            regex_capture ''pid='' is_digit ?s1"
  proof (rule regex_capture_skip)
    show "''pid='' \<noteq> []" by simp
    show "sp1 \<notin> set ''pid=''" using sp(1) by (rule space_not_in_pid)
    show "\<not> sublist ''pid='' (?sn @ n)" using no(1) pid_not_across [of n] by blast
  qed
  have h1: "regex_capture ''pid='' is_digit ?s1 = Some ds"
  proof (rule regex_capture_here)
    show "ds \<noteq> []" by (rule ds(1))
    show "\<forall>c \<in> set ds. is_digit c" by (rule ds(2))
    show "sp2 # ?s2 = [] \<or> \<not> is_digit (hd (sp2 # ?s2))"
      using sp(2) space_not_digit by simp
  qed
  have c2: "regex_capture ''pid='' is_digit (?sn @ n @ sp1 # ?s1) = Some ds"
    using k1 h1 by (simp only: a1 [symmetric])
  have k2: "regex_capture ''clients='' is_digit ((?sn @ n) @ sp1 # ?s1) =
            regex_capture ''clients='' is_digit ?s1"
  proof (rule regex_capture_skip)
    show "''clients='' \<noteq> []" by simp
    show "sp1 \<notin> set ''clients=''" using sp(1) by (rule space_not_in_clients)
    show "\<not> sublist ''clients='' (?sn @ n)" using no(2) clients_not_across [of n] by blast
  qed
  have k3: "regex_capture ''clients='' is_digit ((''pid='' @ ds) @ sp2 # ?s2) =
            regex_capture ''clients='' is_digit ?s2"
  proof (rule regex_capture_skip)
    show "''clients='' \<noteq> []" by simp
    show "sp2 \<notin> set ''clients=''" using sp(2) by (rule space_not_in_clients)
    show "\<not> sublist ''clients='' (''pid='' @ ds)" using ds(2) by (rule no_clients_in_pid)
  qed
  have h3: "regex_capture ''clients='' is_digit (''clients='' @ ds' @ []) = Some ds'"
    by (rule regex_capture_here) (use ds' in simp_all)
  have a3: "''clients='' @ ds' @ [] = ?s2" by (simp only: append_Nil2)
  have c3: "regex_capture ''clients='' is_digit (?sn @ n @ sp1 # ?s1) = Some ds'"
    using k2 k3 h3 by (simp only: a1 [symmetric] a2 [symmetric] a3)
  show ?thesis
    unfolding parse_line_def c1 c2 c3
    by (simp add: parseInt_digits [OF ds] parseInt_digits [OF ds'])
qed

lemma parse_line_name_only:
  assumes n: "n \<noteq> []" "\<forall>c \<in> set n. non_space c"
    and no: "\<not> sublist ''pid='' n" "\<not> sublist ''clients='' n"
  shows "parse_line (''session_name='' @ n) = \<lparr>name = n, pid = None, clients = None\<rparr>"
proof -
  let ?sn = "''session_name=''"
  have "regex_capture ?sn non_space (?sn @ n @ []) = Some n"
    by (rule regex_capture_here) (use n in simp_all)
  then have c1: "regex_capture ?sn non_space (?sn @ n) = Some n"
    by (simp only: append_Nil2)
  have c2: "regex_capture ''pid='' is_digit (?sn @ n) = None"
    using no(1) pid_not_across [of n] by (intro regex_capture_absent) blast
  have c3: "regex_capture ''clients='' is_digit (?sn @ n) = None"
    using no(2) clients_not_across [of n] by (intro regex_capture_absent) blast
  show ?thesis unfolding parse_line_def c1 c2 c3 by simp
qed

text \<open>
  C5. \<^verbatim>\<open>listSessions\<close> returns the parse of whatever the registry printed. A report
  that starts with \<open>no sessions found\<close> is the empty list of sessions (no error). Any
  other report is parsed line by line: for lines without a newline in them, joined by
  newlines, with white space around the whole, the result is the parse of every
  non-empty line, in order. A line \<open>session_name=N pid=P clients=C\<close> (white space
  between the tokens, \<open>N\<close> of non-space characters, \<open>P\<close> and \<open>C\<close> of digits, neither
  \<open>pid=\<close> nor \<open>clients=\<close> inside \<open>N\<close>) is the session \<open>N\<close> with the numbers \<open>P\<close> and
  \<open>C\<close>: \<open>session_name=dev pid=123 clients=2\<close> is \<open>dev\<close> with pid 123 and 2 clients.
  A line \<open>session_name=N\<close> alone is the session \<open>N\<close> with neither field, and more
  generally a line in which \<open>pid=\<close> (or \<open>clients=\<close>) does not occur gives a record
  without that field.
\<close>

theorem listSessions_parsing:
  "(zmx_list ext w = Inr out \<longrightarrow> listSessions ext w = Inr (parse_report out)) \<and>
   parse_report (''no sessions found'' @ rest) = [] \<and>
   (zmx_list ext w = Inr (''no sessions found'' @ rest) \<longrightarrow> listSessions ext w = Inr []) \<and>
   ((\<forall>c \<in> set padl. is_space c) \<and> (\<forall>c \<in> set padr. is_space c) \<and> ls \<noteq> [] \<and>
    (\<forall>l \<in> set ls. CHR 0x0A \<notin> set l) \<and> join_lines ls \<noteq> [] \<and>
    \<not> is_space (hd (join_lines ls)) \<and> \<not> is_space (last (join_lines ls)) \<and>
    \<not> prefix ''no sessions found'' (join_lines ls) \<longrightarrow>
      parse_report (padl @ join_lines ls @ padr) =
        map parse_line (filter (\<lambda>l. l \<noteq> []) ls)) \<and>
   (n \<noteq> [] \<and> (\<forall>c \<in> set n. non_space c) \<and> ds \<noteq> [] \<and> (\<forall>c \<in> set ds. is_digit c) \<and>
    ds' \<noteq> [] \<and> (\<forall>c \<in> set ds'. is_digit c) \<and> is_space spa \<and> is_space spb \<and>
    \<not> sublist ''pid='' n \<and> \<not> sublist ''clients='' n \<longrightarrow>
      parse_line (''session_name='' @ n @ spa # ''pid='' @ ds @ spb # ''clients='' @ ds') =
        \<lparr>name = n, pid = Some (js_integer False (decimal_value ds)),
         clients = Some (js_integer False (decimal_value ds'))\<rparr>) \<and>
   (n \<noteq> [] \<and> (\<forall>c \<in> set n. non_space c) \<and>
    \<not> sublist ''pid='' n \<and> \<not> sublist ''clients='' n \<longrightarrow>
      parse_line (''session_name='' @ n) = \<lparr>name = n, pid = None, clients = None\<rparr>) \<and>
   parse_report ''session_name=dev pid=123 clients=2'' =
     [\<lparr>name = ''dev'', pid = Some (Num 123), clients = Some (Num 2)\<rparr>] \<and>
   parse_report ''session_name=x'' = [\<lparr>name = ''x'', pid = None, clients = None\<rparr>] \<and>
   (\<not> sublist ''pid='' line \<longrightarrow> pid (parse_line line) = None) \<and>
   (\<not> sublist ''clients='' line \<longrightarrow> clients (parse_line line) = None)"
proof -
  have a: "parse_report ''session_name=dev pid=123 clients=2'' =
     [\<lparr>name = ''dev'', pid = Some (Num 123), clients = Some (Num 2)\<rparr>]"
    by code_simp
  have b: "parse_report ''session_name=x'' = [\<lparr>name = ''x'', pid = None, clients = None\<rparr>]"
    by code_simp
  have l: "zmx_list ext w = Inr out \<longrightarrow> listSessions ext w = Inr (parse_report out)"
    by (simp add: listSessions_def)
  have c: "zmx_list ext w = Inr (''no sessions found'' @ rest) \<longrightarrow> listSessions ext w = Inr []"
  proof
    assume h: "zmx_list ext w = Inr (''no sessions found'' @ rest)"
    have "listSessions ext w = Inr (parse_report (''no sessions found'' @ rest))"
      unfolding listSessions_def h by (simp only: sum.case)
    then show "listSessions ext w = Inr []"
      by (simp only: parse_report_no_sessions)
  qed
  have d: "\<not> sublist ''pid='' line \<longrightarrow> pid (parse_line line) = None"
    by (simp add: parse_line_def regex_capture_absent)
  have e: "\<not> sublist ''clients='' line \<longrightarrow> clients (parse_line line) = None"
    by (simp add: parse_line_def regex_capture_absent)
  from a b l c d e parse_report_no_sessions [of rest]
    parse_report_lines [of padl padr ls]
    parse_line_tokens [of n ds ds' spa spb]
    parse_line_name_only [of n]
  show ?thesis by blast
qed

theorem listSessions_parsing_witness:
  "listSessions sim sim_two =
     Inr [\<lparr>name = ''dev'', pid = Some (Num 1), clients = Some (Num 0)\<rparr>,
          \<lparr>name = ''test'', pid = Some (Num 1), clients = Some (Num 0)\<rparr>] \<and>
   zmx_list sim sim_start = Inr (''no sessions found'' @ '' in /tmp/zmx'') \<and>
   listSessions sim sim_start = Inr [] \<and>
   parse_report ([] @ join_lines report_lines @ [CHR 0x0A]) =
     [\<lparr>name = ''dev'', pid = Some (Num 123), clients = Some (Num 2)\<rparr>,
      \<lparr>name = ''x'', pid = None, clients = None\<rparr>] \<and>
   parse_line (''session_name='' @ ''dev'' @ CHR 0x09 # ''pid='' @ ''123'' @ CHR 0x09 #
               ''clients='' @ ''2'') =
     \<lparr>name = ''dev'', pid = Some (Num 123), clients = Some (Num 2)\<rparr> \<and>
   parse_line (''session_name='' @ ''x'') = \<lparr>name = ''x'', pid = None, clients = None\<rparr> \<and>
   pid (parse_line ''name x'') = None \<and> clients (parse_line ''name x'') = None"
proof -
  note L = listSessions_parsing [where ext = sim and padl = "[]" and padr = "[CHR 0x0A]"
      and ls = report_lines and ds = "''123''" and ds' = "''2''" and spa = "CHR 0x09"
      and spb = "CHR 0x09" and line = "''name x''" and rest = "'' in /tmp/zmx''"]
  have o: "zmx_list sim sim_two = Inr (sim_report [''dev'', ''test''])" by code_simp
  have p: "parse_report (sim_report [''dev'', ''test'']) =
     [\<lparr>name = ''dev'', pid = Some (Num 1), clients = Some (Num 0)\<rparr>,
      \<lparr>name = ''test'', pid = Some (Num 1), clients = Some (Num 0)\<rparr>]"
    by code_simp
  have "listSessions sim sim_two = Inr (parse_report (sim_report [''dev'', ''test'']))"
    using o by (rule L [THEN conjunct1, THEN mp])
  then have c1: "listSessions sim sim_two =
     Inr [\<lparr>name = ''dev'', pid = Some (Num 1), clients = Some (Num 0)\<rparr>,
          \<lparr>name = ''test'', pid = Some (Num 1), clients = Some (Num 0)\<rparr>]"
    by (simp only: p)
  have z: "zmx_list sim sim_start = Inr (''no sessions found'' @ '' in /tmp/zmx'')"
    by code_simp
  have c2: "listSessions sim sim_start = Inr []"
    using z by (rule L [THEN conjunct2, THEN conjunct2, THEN conjunct1, THEN mp])
  have h: "(\<forall>c \<in> set []. is_space c) \<and> (\<forall>c \<in> set [CHR 0x0A]. is_space c) \<and>
      report_lines \<noteq> [] \<and> (\<forall>l \<in> set report_lines. CHR 0x0A \<notin> set l) \<and>
      join_lines report_lines \<noteq> [] \<and> \<not> is_space (hd (join_lines report_lines)) \<and>
      \<not> is_space (last (join_lines report_lines)) \<and>
      \<not> prefix ''no sessions found'' (join_lines report_lines)"
    by code_simp
  have e1: "parse_report ([] @ join_lines report_lines @ [CHR 0x0A]) =
            map parse_line (filter (\<lambda>l. l \<noteq> []) report_lines)"
    using h
    by (rule L [THEN conjunct2, THEN conjunct2, THEN conjunct2, THEN conjunct1, THEN mp])
  have e2: "map parse_line (filter (\<lambda>l. l \<noteq> []) report_lines) =
     [\<lparr>name = ''dev'', pid = Some (Num 123), clients = Some (Num 2)\<rparr>,
      \<lparr>name = ''x'', pid = None, clients = None\<rparr>]"
    by code_simp
  have c3: "parse_report ([] @ join_lines report_lines @ [CHR 0x0A]) =
     [\<lparr>name = ''dev'', pid = Some (Num 123), clients = Some (Num 2)\<rparr>,
      \<lparr>name = ''x'', pid = None, clients = None\<rparr>]"
    using e1 e2 by (rule trans)
  have t: "''dev'' \<noteq> [] \<and> (\<forall>c \<in> set ''dev''. non_space c) \<and> ''123'' \<noteq> [] \<and>
      (\<forall>c \<in> set ''123''. is_digit c) \<and> ''2'' \<noteq> [] \<and> (\<forall>c \<in> set ''2''. is_digit c) \<and>
      is_space (CHR 0x09) \<and> is_space (CHR 0x09) \<and>
      \<not> sublist ''pid='' ''dev'' \<and> \<not> sublist ''clients='' ''dev''"
    by code_simp
  have t6: "js_integer False (decimal_value ''123'') = Num 123" by code_simp
  have t7: "js_integer False (decimal_value ''2'') = Num 2" by code_simp
  have "parse_line (''session_name='' @ ''dev'' @ CHR 0x09 # ''pid='' @ ''123'' @ CHR 0x09 #
               ''clients='' @ ''2'') =
     \<lparr>name = ''dev'', pid = Some (js_integer False (decimal_value ''123'')),
      clients = Some (js_integer False (decimal_value ''2''))\<rparr>"
    using t
    by (rule L [where n = "''dev''", THEN conjunct2, THEN conjunct2, THEN conjunct2,
          THEN conjunct2, THEN conjunct1, THEN mp])
  then have c4: "parse_line (''session_name='' @ ''dev'' @ CHR 0x09 # ''pid='' @ ''123'' @
                   CHR 0x09 # ''clients='' @ ''2'') =
     \<lparr>name = ''dev'', pid = Some (Num 123), clients = Some (Num 2)\<rparr>"
    by (simp only: t6 t7)
  have u: "''x'' \<noteq> [] \<and> (\<forall>c \<in> set ''x''. non_space c) \<and>
      \<not> sublist ''pid='' ''x'' \<and> \<not> sublist ''clients='' ''x''"
    by code_simp
  have c5: "parse_line (''session_name='' @ ''x'') = \<lparr>name = ''x'', pid = None, clients = None\<rparr>"
    using u
    by (rule L [where n = "''x''", THEN conjunct2, THEN conjunct2, THEN conjunct2,
          THEN conjunct2, THEN conjunct2, THEN conjunct1, THEN mp])
  have v1: "\<not> sublist ''pid='' ''name x''" by code_simp
  have v2: "\<not> sublist ''clients='' ''name x''" by code_simp
  have c6: "pid (parse_line ''name x'') = None"
    using v1
    by (rule L [THEN conjunct2, THEN conjunct2, THEN conjunct2, THEN conjunct2,
          THEN conjunct2, THEN conjunct2, THEN conjunct2, THEN conjunct2, THEN conjunct1,
          THEN mp])
  have c7: "clients (parse_line ''name x'') = None"
    using v2
    by (rule L [THEN conjunct2, THEN conjunct2, THEN conjunct2, THEN conjunct2,
          THEN conjunct2, THEN conjunct2, THEN conjunct2, THEN conjunct2, THEN conjunct2,
          THEN mp])
  show ?thesis
    by (intro conjI) (rule c1 z c2 c3 c4 c5 c6 c7)+
qed

section \<open>The Terminal Manager and the registry\<close>

lemma kill_each_fold:
  "kill_each ext ns w = (None, w') \<Longrightarrow> w' = fold (\<lambda>n v. snd (zmx_kill ext n v)) ns w"
  by (induction ns arbitrary: w) (auto split: prod.splits option.splits)

lemma kill_each_all_ok:
  "kill_each ext ns w = (None, w') \<Longrightarrow> i < length ns \<Longrightarrow>
   fst (zmx_kill ext (ns ! i) (fold (\<lambda>n v. snd (zmx_kill ext n v)) (take i ns) w)) = None"
proof (induction ns arbitrary: w i)
  case Nil
  then show ?case by simp
next
  case (Cons n ns)
  then show ?case
    by (cases i) (auto split: prod.splits option.splits)
qed

lemma killAllSessions_error:
  "killAllSessions ext m w = (Inl e, m', w') \<Longrightarrow> m' = m"
  by (auto simp: killAllSessions_def split: prod.splits sum.splits)

text \<open>
  C6. When \<^verbatim>\<open>killAllSessions\<close> returns a count, the registry was listed once, in the
  world the call started in; the count is the length of that list; a kill was issued for
  every name of the list, in the list's order, and each succeeded (the world after the
  call is the world after these kills, one after the other); and the Manager's two
  fields are null, whatever they were. (When the listing or a kill throws, the call
  throws and the fields stay: \<open>killAllSessions_error\<close>.)
\<close>

theorem killAllSessions_spec:
  "(killAllSessions ext m w = (Inr count, m', w') \<longleftrightarrow>
      (\<exists>ss. listSessions ext w = Inr ss \<and> count = length ss \<and>
            kill_each ext (map name ss) w = (None, w')) \<and>
      m' = m\<lparr>currentSession := None, windowId := None\<rparr>) \<and>
   (kill_each ext ns w = (None, w') \<longrightarrow>
      w' = fold (\<lambda>n v. snd (zmx_kill ext n v)) ns w \<and>
      (\<forall>i < length ns.
         fst (zmx_kill ext (ns ! i) (fold (\<lambda>n v. snd (zmx_kill ext n v)) (take i ns) w)) = None))"
proof -
  have a: "killAllSessions ext m w = (Inr count, m', w') \<longleftrightarrow>
      (\<exists>ss. listSessions ext w = Inr ss \<and> count = length ss \<and>
            kill_each ext (map name ss) w = (None, w')) \<and>
      m' = m\<lparr>currentSession := None, windowId := None\<rparr>"
    by (auto simp: killAllSessions_def zmx_killAllSessions_def
        split: prod.splits sum.splits option.splits)
  have b: "kill_each ext ns w = (None, w') \<longrightarrow>
      w' = fold (\<lambda>n v. snd (zmx_kill ext n v)) ns w \<and>
      (\<forall>i < length ns.
         fst (zmx_kill ext (ns ! i) (fold (\<lambda>n v. snd (zmx_kill ext n v)) (take i ns) w)) = None)"
    using kill_each_fold [of ext ns w w'] kill_each_all_ok [of ext ns w w'] by blast
  from a b show ?thesis by blast
qed

theorem killAllSessions_spec_witness:
  "killAllSessions sim manager_dev sim_two = (Inr 2, new_manager, sim_start) \<and>
   (\<exists>ss. listSessions sim sim_two = Inr ss \<and> 2 = length ss \<and>
         kill_each sim (map name ss) sim_two = (None, sim_start)) \<and>
   new_manager = manager_dev\<lparr>currentSession := None, windowId := None\<rparr> \<and>
   kill_each sim [''dev'', ''test''] sim_two = (None, sim_start) \<and>
   sim_start = fold (\<lambda>n v. snd (zmx_kill sim n v)) [''dev'', ''test''] sim_two \<and>
   listSessions sim sim_start = Inr []"
proof -
  have h: "killAllSessions sim manager_dev sim_two = (Inr 2, new_manager, sim_start)"
    by code_simp
  have k: "kill_each sim [''dev'', ''test''] sim_two = (None, sim_start)"
    by code_simp
  have a: "listSessions sim sim_start = Inr []" by code_simp
  from h k a
    killAllSessions_spec [of sim manager_dev sim_two 2 new_manager sim_start
      "[''dev'', ''test'']"]
  show ?thesis by blast
qed

lemma killSession_error: "killSession ext sn m w = (Some e, m', w') \<Longrightarrow> m' = m"
  by (auto simp: killSession_def split: prod.splits option.splits)

text \<open>
  C8. When \<^verbatim>\<open>killSession\<close> returns, the Manager's two fields are null if the name is
  the current session and are what they were if it is not. So after
  \<^verbatim>\<open>createSession("dev")\<close> and \<^verbatim>\<open>killSession("dev")\<close> the status has no session name
  and is not active. (When the registry's kill throws, the call throws and the fields
  stay: \<open>killSession_error\<close>.)
\<close>

theorem killSession_frame:
  "(killSession ext sn m w = (None, m', w') \<longleftrightarrow>
      zmx_kill ext sn w = (None, w') \<and>
      m' = (if currentSession m = Some sn
            then m\<lparr>currentSession := None, windowId := None\<rparr> else m)) \<and>
   (createSession ext ''dev'' m w = (Inr r, m1, w1) \<longrightarrow>
    killSession ext ''dev'' m1 w1 = (None, m2, w2) \<longrightarrow>
    getStatus ext m2 w2 = (Inr s, m3, w3) \<longrightarrow>
      sessionName s = None \<and> \<not> isActive s)"
proof -
  have a: "killSession ext sn m w = (None, m', w') \<longleftrightarrow>
      zmx_kill ext sn w = (None, w') \<and>
      m' = (if currentSession m = Some sn
            then m\<lparr>currentSession := None, windowId := None\<rparr> else m)"
    by (auto simp: killSession_def zmx_killSession_def split: prod.splits option.splits)
  have b: "createSession ext ''dev'' m w = (Inr r, m1, w1) \<longrightarrow>
    killSession ext ''dev'' m1 w1 = (None, m2, w2) \<longrightarrow>
    getStatus ext m2 w2 = (Inr s, m3, w3) \<longrightarrow>
      sessionName s = None \<and> \<not> isActive s"
  proof (intro impI)
    assume c: "createSession ext ''dev'' m w = (Inr r, m1, w1)"
      and k: "killSession ext ''dev'' m1 w1 = (None, m2, w2)"
      and g: "getStatus ext m2 w2 = (Inr s, m3, w3)"
    from c have "currentSession m1 = Some ''dev''"
      by (auto simp: createSession_def split: prod.splits sum.splits)
    with k have "currentSession m2 = None"
      by (auto simp: killSession_def zmx_killSession_def split: prod.splits option.splits)
    with g show "sessionName s = None \<and> \<not> isActive s"
      by (auto simp: getStatus_def Let_def split: prod.splits sum.splits if_splits)
  qed
  from a b show ?thesis by blast
qed

theorem killSession_frame_witness:
  "killSession sim ''dev'' manager_dev sim_dev = (None, new_manager, sim_gone) \<and>
   new_manager = (if currentSession manager_dev = Some ''dev''
                  then manager_dev\<lparr>currentSession := None, windowId := None\<rparr>
                  else manager_dev) \<and>
   killSession sim ''test'' manager_dev sim_two =
     (None, manager_dev, \<lparr>live = [''dev''], sent = [], clock = 0\<rparr>) \<and>
   createSession sim ''dev'' new_manager sim_start = (Inr (''dev'', Num 7), manager_dev, sim_dev) \<and>
   getStatus sim new_manager sim_gone = (Inr status_idle, manager_window, sim_seen) \<and>
   sessionName status_idle = None \<and> \<not> isActive status_idle"
proof -
  have k: "killSession sim ''dev'' manager_dev sim_dev = (None, new_manager, sim_gone)"
    by code_simp
  have k': "killSession sim ''test'' manager_dev sim_two =
     (None, manager_dev, \<lparr>live = [''dev''], sent = [], clock = 0\<rparr>)"
    by code_simp
  have c: "createSession sim ''dev'' new_manager sim_start =
     (Inr (''dev'', Num 7), manager_dev, sim_dev)"
    by code_simp
  have g: "getStatus sim new_manager sim_gone = (Inr status_idle, manager_window, sim_seen)"
    by code_simp
  from k k' c g
    killSession_frame [of sim "''dev''" manager_dev sim_dev new_manager sim_gone]
    killSession_frame [of sim "''dev''" new_manager sim_start new_manager sim_start
      "(''dev'', Num 7)" manager_dev sim_dev new_manager sim_gone
      status_idle manager_window sim_seen]
  show ?thesis by blast
qed

lemma getStatus_currentSession:
  "getStatus ext m w = (r, m', w') \<Longrightarrow> currentSession m' = currentSession m"
  by (auto simp: getStatus_def Let_def split: prod.splits sum.splits if_splits)

text \<open>
  C10. In every status that \<^verbatim>\<open>getStatus\<close> returns, \<open>isActive\<close> is true exactly when
  \<open>sessionName\<close> is not null, and \<open>sessionName\<close> is the Manager's current session. This
  holds in whatever state the Manager is, so also after any sequence of the operations
  that set or clear the current session (create, kill, kill all, close, restart, and
  the status itself), whether they returned or threw.
\<close>

theorem getStatus_isActive:
  "(getStatus ext m w = (Inr s, m', w') \<longrightarrow>
      (isActive s \<longleftrightarrow> sessionName s \<noteq> None) \<and> sessionName s = currentSession m) \<and>
   (getStatus ext (fst (run_ops ext ops (m, w))) (snd (run_ops ext ops (m, w))) = (Inr s, m', w') \<longrightarrow>
      (isActive s \<longleftrightarrow> sessionName s \<noteq> None))"
  by (auto simp: getStatus_def Let_def split: prod.splits sum.splits if_splits)

theorem getStatus_isActive_witness:
  "getStatus sim manager_dev sim_dev = (Inr status_dev, manager_dev, sim_dev) \<and>
   isActive status_dev \<and> sessionName status_dev \<noteq> None \<and>
   sessionName status_dev = currentSession manager_dev \<and>
   getStatus sim
     (fst (run_ops sim [CreateSession ''dev'', KillSession ''dev''] (new_manager, sim_start)))
     (snd (run_ops sim [CreateSession ''dev'', KillSession ''dev''] (new_manager, sim_start))) =
     (Inr status_idle, manager_window, sim_seen) \<and>
   \<not> isActive status_idle \<and> sessionName status_idle = None"
proof -
  have a: "getStatus sim manager_dev sim_dev = (Inr status_dev, manager_dev, sim_dev)"
    by code_simp
  have b: "getStatus sim
     (fst (run_ops sim [CreateSession ''dev'', KillSession ''dev''] (new_manager, sim_start)))
     (snd (run_ops sim [CreateSession ''dev'', KillSession ''dev''] (new_manager, sim_start))) =
     (Inr status_idle, manager_window, sim_seen)"
    by code_simp
  have c: "isActive status_dev" by code_simp
  have d: "\<not> isActive status_idle" by code_simp
  from a b c d
    getStatus_isActive [of sim manager_dev sim_dev status_dev manager_dev sim_dev]
    getStatus_isActive [of sim new_manager sim_start status_idle manager_window sim_seen
      "[CreateSession ''dev'', KillSession ''dev'']"]
  show ?thesis by blast
qed

lemma send_each_append:
  "send_each ext (xs @ ys) w =
     (case send_each ext xs w of (Some e, w') \<Rightarrow> (Some e, w') | (None, w') \<Rightarrow> send_each ext ys w')"
  by (induction xs arbitrary: w) (auto split: prod.splits option.splits)

lemma send_each_deliver:
  "map resolveKey keys = map Inr evs \<Longrightarrow>
   send_each ext keys w = deliver ext (map event_script evs) w"
proof (induction keys arbitrary: evs w)
  case Nil
  then show ?case by simp
next
  case (Cons k keys)
  then obtain ev evs' where e: "evs = ev # evs'" by (cases evs) auto
  with Cons.prems have r: "resolveKey k = Inr ev" and m: "map resolveKey keys = map Inr evs'"
    by simp_all
  show ?case
    using Cons.IH [OF m] r
    by (auto simp: e sendKeystroke_def split: prod.splits sum.splits)
qed

lemma sendKeys_deliver:
  assumes "map resolveKey keys = map Inr evs"
  shows "sendKeys ext keys w =
           (case deliver ext (Activate # map event_script evs) w of
              (Some e, w') \<Rightarrow> (Inl e, w')
            | (None, w') \<Rightarrow> (Inr (length keys), w'))"
  using send_each_deliver [OF assms, of ext]
  by (auto simp: sendKeys_def activateTerminal_def split: prod.splits sum.splits option.splits)

lemma sendKeys_bad_key:
  assumes "map resolveKey pre = map Inr evs" and "resolveKey bad = Inl e"
    and "deliver ext (Activate # map event_script evs) w = (None, w')"
  shows "sendKeys ext (pre @ bad # post) w = (Inl e, w')"
proof -
  from sendKeys_deliver [OF assms(1), of ext w] assms(3)
  have "sendKeys ext pre w = (Inr (length pre), w')" by simp
  with assms(2) show ?thesis
    by (auto simp: sendKeys_def send_each_append sendKeystroke_def
        split: prod.splits option.splits sum.splits)
qed

lemma sendKeys_script_fails:
  assumes "map resolveKey pre = map Inr evs"
    and "deliver ext (Activate # map event_script evs) w = (Some e, w')"
  shows "sendKeys ext (pre @ post) w = (Inl e, w')"
proof -
  from sendKeys_deliver [OF assms(1), of ext w] assms(2)
  have "sendKeys ext pre w = (Inl e, w')" by simp
  then show ?thesis
    by (auto simp: sendKeys_def send_each_append split: prod.splits option.splits sum.splits)
qed

lemma send_each_encoded:
  "send_each ext keys w = (None, w') \<Longrightarrow> \<exists>evs. map resolveKey keys = map Inr evs"
proof (induction keys arbitrary: w)
  case Nil
  then show ?case by simp
next
  case (Cons k keys)
  from Cons.prems obtain ev w1 where r: "resolveKey k = Inr ev"
    and s: "send_each ext keys w1 = (None, w')"
    by (auto simp: sendKeystroke_def split: prod.splits option.splits sum.splits)
  from Cons.IH [OF s] obtain evs where "map resolveKey keys = map Inr evs" by blast
  with r have "map resolveKey (k # keys) = map Inr (ev # evs)" by simp
  then show ?case by blast
qed

lemma sendKeys_returns:
  assumes "sendKeys ext keys w = (Inr n, w')"
  shows "n = length keys \<and>
         (\<exists>evs. map resolveKey keys = map Inr evs \<and>
                deliver ext (Activate # map event_script evs) w = (None, w'))"
proof -
  from assms obtain w1 where s1: "send_each ext keys w1 = (None, w')" and n: "n = length keys"
    by (auto simp: sendKeys_def split: prod.splits option.splits sum.splits)
  from send_each_encoded [OF s1] obtain evs where m: "map resolveKey keys = map Inr evs"
    by blast
  from sendKeys_deliver [OF m, of ext w] assms
  have "deliver ext (Activate # map event_script evs) w = (None, w')"
    by (auto split: prod.splits option.splits)
  with m n show ?thesis by blast
qed

text \<open>
  C7, as the code has it. The terminal is activated and the keys are sent one by one:
  the scripts delivered are the activation and then the script of each key, in the
  order of the list, as far as the keys encode. If the keys \<open>pre\<close> encode and their
  scripts are delivered, leaving the world \<open>w'\<close>, and the next key \<open>bad\<close> does not
  encode, the call throws the encoder's error for \<open>bad\<close> in that world \<open>w'\<close>: the
  keys before \<open>bad\<close> stay delivered, nothing after it is sent, and the caller gets no
  count. If every key encodes and every script is delivered, the call returns the
  number of keys; if a script throws, the call throws that error where the delivery
  stopped. A count is returned only in the second case.
\<close>

theorem sendKeys_abort:
  "(map resolveKey pre = map Inr evs \<and> resolveKey bad = Inl e \<and>
    deliver ext (Activate # map event_script evs) w = (None, w') \<longrightarrow>
      sendKeys ext (pre @ bad # post) w = (Inl e, w')) \<and>
   (map resolveKey keys = map Inr evs \<and>
    deliver ext (Activate # map event_script evs) w = (None, w') \<longrightarrow>
      sendKeys ext keys w = (Inr (length keys), w')) \<and>
   (map resolveKey pre = map Inr evs \<and>
    deliver ext (Activate # map event_script evs) w = (Some e, w') \<longrightarrow>
      sendKeys ext (pre @ post) w = (Inl e, w')) \<and>
   (sendKeys ext keys w = (Inr n, w') \<longrightarrow>
      n = length keys \<and>
      (\<exists>evs'. map resolveKey keys = map Inr evs' \<and>
              deliver ext (Activate # map event_script evs') w = (None, w'))) \<and>
   (sendKeys ext pre w = (Inr n, w') \<and> resolveKey bad = Inl e \<longrightarrow>
      sendKeys ext (pre @ bad # post) w = (Inl e, w'))"
proof -
  have a: "map resolveKey pre = map Inr evs \<and> resolveKey bad = Inl e \<and>
    deliver ext (Activate # map event_script evs) w = (None, w') \<longrightarrow>
      sendKeys ext (pre @ bad # post) w = (Inl e, w')"
    using sendKeys_bad_key [of pre evs bad e ext w w' post] by blast
  have b: "map resolveKey keys = map Inr evs \<and>
    deliver ext (Activate # map event_script evs) w = (None, w') \<longrightarrow>
      sendKeys ext keys w = (Inr (length keys), w')"
    using sendKeys_deliver [of keys evs ext w] by auto
  have c: "map resolveKey pre = map Inr evs \<and>
    deliver ext (Activate # map event_script evs) w = (Some e, w') \<longrightarrow>
      sendKeys ext (pre @ post) w = (Inl e, w')"
    using sendKeys_script_fails [of pre evs ext w e w' post] by blast
  have d: "sendKeys ext keys w = (Inr n, w') \<longrightarrow>
      n = length keys \<and>
      (\<exists>evs'. map resolveKey keys = map Inr evs' \<and>
              deliver ext (Activate # map event_script evs') w = (None, w'))"
    using sendKeys_returns [of ext keys w n w'] by blast
  have f: "sendKeys ext pre w = (Inr n, w') \<and> resolveKey bad = Inl e \<longrightarrow>
      sendKeys ext (pre @ bad # post) w = (Inl e, w')"
    by (auto simp: sendKeys_def send_each_append sendKeystroke_def
        split: prod.splits option.splits sum.splits)
  show ?thesis
    by (intro conjI) (rule a b c d f)+
qed

theorem sendKeys_abort_witness:
  "map resolveKey [''a''] = map Inr [LiteralText ''a''] \<and>
   resolveKey ''bogus'' = Inl (UnknownKey ''bogus'') \<and>
   deliver sim (Activate # map event_script [LiteralText ''a'']) sim_start = (None, sim_typed) \<and>
   sent sim_typed = [Activate, Keystroke ''a'' None] \<and>
   sendKeys sim ([''a''] @ ''bogus'' # [''b'']) sim_start = (Inl (UnknownKey ''bogus''), sim_typed) \<and>
   sendKeys sim [''a''] sim_start = (Inr (length [''a'']), sim_typed)"
proof -
  note L = sendKeys_abort [where ext = sim and pre = "[''a'']" and keys = "[''a'']"
      and evs = "[LiteralText ''a'']" and bad = "''bogus''" and e = "UnknownKey ''bogus''"
      and w = sim_start and w' = sim_typed and post = "[''b'']"]
  have a: "map resolveKey [''a''] = map Inr [LiteralText ''a'']" by code_simp
  have b: "resolveKey ''bogus'' = Inl (UnknownKey ''bogus'')" by code_simp
  have c: "deliver sim (Activate # map event_script [LiteralText ''a'']) sim_start =
             (None, sim_typed)"
    by code_simp
  have d: "sent sim_typed = [Activate, Keystroke ''a'' None]" by code_simp
  have h1: "map resolveKey [''a''] = map Inr [LiteralText ''a''] \<and>
      resolveKey ''bogus'' = Inl (UnknownKey ''bogus'') \<and>
      deliver sim (Activate # map event_script [LiteralText ''a'']) sim_start = (None, sim_typed)"
    using a b c by (intro conjI)
  have h2: "map resolveKey [''a''] = map Inr [LiteralText ''a''] \<and>
      deliver sim (Activate # map event_script [LiteralText ''a'']) sim_start = (None, sim_typed)"
    using a c by (intro conjI)
  have r1: "sendKeys sim ([''a''] @ ''bogus'' # [''b'']) sim_start =
              (Inl (UnknownKey ''bogus''), sim_typed)"
    using h1 by (rule L [THEN conjunct1, THEN mp])
  have r2: "sendKeys sim [''a''] sim_start = (Inr (length [''a'']), sim_typed)"
    using h2 by (rule L [THEN conjunct2, THEN conjunct1, THEN mp])
  show ?thesis
    by (intro conjI) (rule a b c d r1 r2)+
qed

text \<open>
  C7 as stated fails: of the keys \<open>a\<close>, \<open>bogus\<close>, \<open>b\<close> the first is delivered, and the
  call ends with the error for \<open>bogus\<close>; the count 1 is not what the caller gets.
\<close>

theorem sendKeys_count_counterexample:
  "fst (sendKeys sim [''a'', ''bogus'', ''b''] sim_start) = Inl (UnknownKey ''bogus'') \<and>
   fst (sendKeys sim [''a'', ''bogus'', ''b''] sim_start) \<noteq> Inr 1 \<and>
   sent (snd (sendKeys sim [''a'', ''bogus'', ''b''] sim_start)) = [Activate, Keystroke ''a'' None]"
  by code_simp

section \<open>The polling loops: waiting for a text\<close>

lemma getScreenText_calls:
  "getScreenText smp st = (x, st1) \<Longrightarrow>
   calls st1 = Suc (calls st) \<and> fst (smp (calls st)) = x \<and>
   now st1 = now st + int (snd (smp (calls st)))"
  by (auto simp: getScreenText_def)

lemma busy_wait_calls: "calls (busy_wait u st) = calls st"
  by (simp add: busy_wait_def)

lemma waitForText_loop_spec:
  assumes "waitForText_loop smp t timeoutMs start st = (Inr r, st')"
  shows "text_spec smp t timeoutMs start st r st'"
  using assms
proof (induction smp t timeoutMs start st rule: waitForText_loop.induct)
  case (1 smp t timeoutMs start st)
  show ?case
  proof (cases "now st - start < timeoutMs")
    case False
    with "1.prems" have "r = \<lparr>found = False, elapsedMs = now st - start\<rparr> \<and> st' = st"
      by (subst (asm) waitForText_loop.simps) auto
    with False show ?thesis by (auto simp: text_spec_def)
  next
    case True
    obtain x st1 where g: "getScreenText smp st = (x, st1)"
      by (cases "getScreenText smp st")
    note gc = getScreenText_calls [OF g]
    show ?thesis
    proof (cases x)
      case (Inl e)
      with True g "1.prems" show ?thesis
        by (subst (asm) waitForText_loop.simps) auto
    next
      case (Inr content)
      show ?thesis
      proof (cases "includes_str content t")
        case hit: True
        with True g Inr "1.prems"
        have "r = \<lparr>found = True, elapsedMs = now st1 - start\<rparr> \<and> st' = st1"
          by (subst (asm) waitForText_loop.simps) auto
        moreover have "sample_contains smp (calls st) t"
          using gc Inr hit by (simp add: sample_contains_def)
        ultimately show ?thesis using gc by (auto simp: text_spec_def)
      next
        case miss: False
        with True g Inr "1.prems"
        have rec: "waitForText_loop smp t timeoutMs start (busy_wait (now st1 + pollInterval) st1)
                     = (Inr r, st')"
          by (subst (asm) waitForText_loop.simps) auto
        have ih: "text_spec smp t timeoutMs start (busy_wait (now st1 + pollInterval) st1) r st'"
          using "1.IH" [OF True g [symmetric] Inr miss rec] .
        have no: "\<not> sample_contains smp (calls st) t"
          using gc Inr miss by (simp add: sample_contains_def)
        have c2: "calls (busy_wait (now st1 + pollInterval) st1) = Suc (calls st)"
          using gc by (simp add: busy_wait_calls)
        from ih have i1: "elapsedMs r = now st' - start"
          and i2: "Suc (calls st) \<le> calls st'"
          and i3: "\<forall>k. Suc (calls st) \<le> k \<and> k < calls st' - (if found r then 1 else 0) \<longrightarrow>
                     \<not> sample_contains smp k t"
          and i4: "found r \<longrightarrow> Suc (calls st) < calls st' \<and> sample_contains smp (calls st' - 1) t"
          and i5: "\<not> found r \<longrightarrow> timeoutMs \<le> elapsedMs r"
          unfolding text_spec_def c2 by blast+
        have i3': "\<forall>k. calls st \<le> k \<and> k < calls st' - (if found r then 1 else 0) \<longrightarrow>
                     \<not> sample_contains smp k t"
        proof (intro allI impI)
          fix k
          assume k: "calls st \<le> k \<and> k < calls st' - (if found r then 1 else 0)"
          show "\<not> sample_contains smp k t"
          proof (cases "k = calls st")
            case True
            with no show ?thesis by simp
          next
            case False
            with k have "Suc (calls st) \<le> k" by simp
            with k i3 show ?thesis by blast
          qed
        qed
        from i1 i2 i3' i4 i5 show ?thesis
          unfolding text_spec_def by auto
      qed
    qed
  qed
qed

lemma waitForText_loop_returns:
  assumes "\<forall>k. \<exists>c. fst (smp k) = Inr c"
  shows "\<exists>r st'. waitForText_loop smp t timeoutMs start st = (Inr r, st')"
  using assms
proof (induction smp t timeoutMs start st rule: waitForText_loop.induct)
  case (1 smp t timeoutMs start st)
  show ?case
  proof (cases "now st - start < timeoutMs")
    case False
    then show ?thesis by (subst waitForText_loop.simps) simp
  next
    case True
    obtain x st1 where g: "getScreenText smp st = (x, st1)"
      by (cases "getScreenText smp st")
    from "1.prems" getScreenText_calls [OF g] obtain content where x: "x = Inr content"
      by metis
    show ?thesis
    proof (cases "includes_str content t")
      case hit: True
      with True g x show ?thesis by (subst waitForText_loop.simps) simp
    next
      case miss: False
      from "1.IH" [OF True g [symmetric] x miss "1.prems"] True g x miss
      show ?thesis by (subst waitForText_loop.simps) simp
    qed
  qed
qed

lemma waitForText_loop_instant:
  assumes "now st - start < timeoutMs" and "fst (smp (calls st)) = Inr content"
    and "includes_str content t"
  shows "waitForText_loop smp t timeoutMs start st =
           (Inr \<lparr>found = True, elapsedMs = now st + int (snd (smp (calls st))) - start\<rparr>,
            \<lparr>now = now st + int (snd (smp (calls st))), calls = Suc (calls st)\<rparr>)"
  using assms by (subst waitForText_loop.simps) (simp add: getScreenText_def)

text \<open>
  C2. Whatever the text and the timeout: when \<^verbatim>\<open>waitForText\<close> returns a result, the
  elapsed time it reports is the time from the call to the return; no sample before
  the last one contained the text; with \<open>found\<close> the last sample taken contains it,
  and without \<open>found\<close> no sample did and the elapsed time is at least the timeout. A
  sample that contains the text ends the loop at once: at a loop head before the
  timeout, the result is \<open>found\<close> with the time at which that sample returned, and the
  loop does not sleep again. Containing is being a contiguous part of the sample, as it
  is. And the call does return a result when no sample fails.
\<close>

theorem waitForText_spec:
  "(waitForText smp t timeoutMs st = (Inr r, st') \<longrightarrow>
      elapsedMs r = now st' - now st \<and>
      (\<forall>k. calls st \<le> k \<and> k < calls st' - (if found r then 1 else 0) \<longrightarrow>
            \<not> sample_contains smp k t) \<and>
      (found r \<longrightarrow> calls st < calls st' \<and> sample_contains smp (calls st' - 1) t) \<and>
      (\<not> found r \<longrightarrow> timeoutMs \<le> elapsedMs r)) \<and>
   (now st - start < timeoutMs \<and> fst (smp (calls st)) = Inr content \<and>
    includes_str content t \<longrightarrow>
      waitForText_loop smp t timeoutMs start st =
        (Inr \<lparr>found = True, elapsedMs = now st + int (snd (smp (calls st))) - start\<rparr>,
         \<lparr>now = now st + int (snd (smp (calls st))), calls = Suc (calls st)\<rparr>)) \<and>
   (includes_str content t \<longleftrightarrow> (\<exists>ps ss. content = ps @ t @ ss)) \<and>
   ((\<forall>k. \<exists>c. fst (smp k) = Inr c) \<longrightarrow>
      (\<exists>r' st''. waitForText smp t timeoutMs st = (Inr r', st'')))"
proof -
  have a: "waitForText smp t timeoutMs st = (Inr r, st') \<longrightarrow>
      elapsedMs r = now st' - now st \<and>
      (\<forall>k. calls st \<le> k \<and> k < calls st' - (if found r then 1 else 0) \<longrightarrow>
            \<not> sample_contains smp k t) \<and>
      (found r \<longrightarrow> calls st < calls st' \<and> sample_contains smp (calls st' - 1) t) \<and>
      (\<not> found r \<longrightarrow> timeoutMs \<le> elapsedMs r)"
  proof
    assume "waitForText smp t timeoutMs st = (Inr r, st')"
    then have "text_spec smp t timeoutMs (now st) st r st'"
      unfolding waitForText_def by (rule waitForText_loop_spec)
    then show "elapsedMs r = now st' - now st \<and>
      (\<forall>k. calls st \<le> k \<and> k < calls st' - (if found r then 1 else 0) \<longrightarrow>
            \<not> sample_contains smp k t) \<and>
      (found r \<longrightarrow> calls st < calls st' \<and> sample_contains smp (calls st' - 1) t) \<and>
      (\<not> found r \<longrightarrow> timeoutMs \<le> elapsedMs r)"
      unfolding text_spec_def by blast
  qed
  have b: "now st - start < timeoutMs \<and> fst (smp (calls st)) = Inr content \<and>
    includes_str content t \<longrightarrow>
      waitForText_loop smp t timeoutMs start st =
        (Inr \<lparr>found = True, elapsedMs = now st + int (snd (smp (calls st))) - start\<rparr>,
         \<lparr>now = now st + int (snd (smp (calls st))), calls = Suc (calls st)\<rparr>)"
    using waitForText_loop_instant [of st start timeoutMs smp content t] by blast
  have c: "includes_str content t \<longleftrightarrow> (\<exists>ps ss. content = ps @ t @ ss)"
    by (simp add: includes_str_def sublist_def)
  have d: "(\<forall>k. \<exists>c. fst (smp k) = Inr c) \<longrightarrow>
      (\<exists>r' st''. waitForText smp t timeoutMs st = (Inr r', st''))"
    unfolding waitForText_def using waitForText_loop_returns [of smp t timeoutMs "now st" st]
    by blast
  from a b c d show ?thesis by blast
qed

theorem waitForText_spec_witness:
  "waitForText hello_screen ''ell'' 5000 clock_zero =
     (Inr \<lparr>found = True, elapsedMs = 328\<rparr>, \<lparr>now = 328, calls = 4\<rparr>) \<and>
   sample_contains hello_screen 3 ''ell'' \<and>
   waitForText hello_screen ''ell'' 250 clock_zero =
     (Inr \<lparr>found = False, elapsedMs = 321\<rparr>, \<lparr>now = 321, calls = 3\<rparr>) \<and>
   \<not> sample_contains hello_screen 2 ''ell'' \<and>
   (\<exists>r' st''. waitForText hello_screen ''ell'' 100 clock_zero = (Inr r', st''))"
proof -
  have a: "waitForText hello_screen ''ell'' 5000 clock_zero =
     (Inr \<lparr>found = True, elapsedMs = 328\<rparr>, \<lparr>now = 328, calls = 4\<rparr>)"
    by code_simp
  have b: "waitForText hello_screen ''ell'' 250 clock_zero =
     (Inr \<lparr>found = False, elapsedMs = 321\<rparr>, \<lparr>now = 321, calls = 3\<rparr>)"
    by code_simp
  have c: "calls clock_zero = 0" by (simp add: clock_zero_def)
  have d: "\<forall>k. \<exists>c. fst (hello_screen k) = Inr c" by (simp add: hello_screen_def)
  have "sample_contains hello_screen (4 - 1) ''ell''"
    using a waitForText_spec [of hello_screen "''ell''" 5000 clock_zero
        "\<lparr>found = True, elapsedMs = 328\<rparr>" "\<lparr>now = 328, calls = 4\<rparr>"]
    by simp
  then have e: "sample_contains hello_screen 3 ''ell''" by simp
  have "\<forall>k. 0 \<le> k \<and> k < 3 \<longrightarrow> \<not> sample_contains hello_screen k ''ell''"
    using b c waitForText_spec [of hello_screen "''ell''" 250 clock_zero
        "\<lparr>found = False, elapsedMs = 321\<rparr>" "\<lparr>now = 321, calls = 3\<rparr>"]
    by simp
  then have f: "\<not> sample_contains hello_screen 2 ''ell''" by simp
  have g: "\<exists>r' st''. waitForText hello_screen ''ell'' 100 clock_zero = (Inr r', st'')"
    using d waitForText_spec [of hello_screen "''ell''" 100 clock_zero] by blast
  from a b e f g show ?thesis by blast
qed

section \<open>The polling loops: waiting for a stable screen\<close>

lemma stable_loop_frozen:
  assumes "\<forall>k. fst (smp k) = Inr s" and "\<forall>k. snd (smp k) \<le> L"
    and "stableMs + pollInterval \<le> timeoutMs"
    and "now st - start < timeoutMs" and "lastContent = s" and "lastChange = start"
  shows "\<exists>e st'. waitForStable_loop smp timeoutMs stableMs start lastContent lastChange st =
                  (Inr \<lparr>stable = True, stable_elapsedMs = e\<rparr>, st') \<and>
               stableMs \<le> e \<and>
               e \<le> max (now st - start + int L) (stableMs + pollInterval - 1 + int L)"
  using assms
proof (induction smp timeoutMs stableMs start lastContent lastChange st
       rule: waitForStable_loop.induct)
  case (1 smp timeoutMs stableMs start lastContent lastChange st)
  obtain x st1 where g: "getScreenText smp st = (x, st1)"
    by (cases "getScreenText smp st")
  note gc = getScreenText_calls [OF g]
  from gc "1.prems"(1) have x: "x = Inr s" by simp
  from gc "1.prems"(2) have t1: "now st1 \<le> now st + int L" and t0: "now st \<le> now st1"
    by simp_all
  show ?case
  proof (cases "stableMs \<le> now st1 - start")
    case True
    have "waitForStable_loop smp timeoutMs stableMs start lastContent lastChange st =
            (Inr \<lparr>stable = True, stable_elapsedMs = now st1 - start\<rparr>, st1)"
      using "1.prems"(4,5,6) g x True
      by (subst waitForStable_loop.simps) (simp add: Let_def)
    with True t1 show ?thesis by auto
  next
    case False
    let ?st2 = "busy_wait (now st1 + pollInterval) st1"
    have n2: "now ?st2 = now st1 + pollInterval"
      by (simp add: busy_wait_def pollInterval_def)
    have unf: "waitForStable_loop smp timeoutMs stableMs start lastContent lastChange st =
            waitForStable_loop smp timeoutMs stableMs start lastContent lastChange ?st2"
      using "1.prems"(4,5,6) g x False
      by (subst waitForStable_loop.simps) (simp add: Let_def)
    have head2: "now ?st2 - start < timeoutMs"
      using False "1.prems"(3) n2 by simp
    have ih: "\<exists>e st'. waitForStable_loop smp timeoutMs stableMs start lastContent lastChange ?st2 =
                  (Inr \<lparr>stable = True, stable_elapsedMs = e\<rparr>, st') \<and>
               stableMs \<le> e \<and>
               e \<le> max (now ?st2 - start + int L) (stableMs + pollInterval - 1 + int L)"
      using "1.IH" [OF "1.prems"(4) g [symmetric] x _ _ _ "1.prems"(1,2,3) head2,
          of lastContent lastChange]
        "1.prems"(5,6) False
      by simp
    have "now ?st2 - start + int L \<le> stableMs + pollInterval - 1 + int L"
      using False n2 by simp
    with ih unf show ?thesis by (auto simp: max_def)
  qed
qed

lemma frozen_screen_const: "fst (frozen_screen k) = fst (frozen_screen 0)"
  by (simp add: frozen_screen_def)

text \<open>
  C1, as the code has it. The screen never changes (every sample is the text \<open>s\<close>),
  a sample takes at most \<open>L\<close> milliseconds and the first one returns before the
  timeout. If the timeout leaves one poll interval of room after \<open>stableMs\<close>, the call
  returns \<open>stable\<close>, no earlier than \<open>stableMs\<close> after its start and less than one poll
  interval and two samples' time later than that: the baseline of the last change is
  the start of the call.
\<close>

theorem waitForStable_frozen:
  "(\<forall>k. fst (smp k) = Inr s) \<and> (\<forall>k. snd (smp k) \<le> L) \<and> 0 \<le> stableMs \<and>
   stableMs + pollInterval \<le> timeoutMs \<and> int (snd (smp (calls st))) < timeoutMs \<longrightarrow>
     (\<exists>e st'. waitForStable smp timeoutMs stableMs st =
                 (Inr \<lparr>stable = True, stable_elapsedMs = e\<rparr>, st') \<and>
              stableMs \<le> e \<and> e < stableMs + pollInterval + 2 * int L)"
proof (intro impI, elim conjE)
  assume fr: "\<forall>k. fst (smp k) = Inr s" and bd: "\<forall>k. snd (smp k) \<le> L"
    and nn: "0 \<le> stableMs" and room: "stableMs + pollInterval \<le> timeoutMs"
    and first: "int (snd (smp (calls st))) < timeoutMs"
  obtain x st0 where g: "getScreenText smp st = (x, st0)"
    by (cases "getScreenText smp st")
  note gc = getScreenText_calls [OF g]
  from gc fr have x: "x = Inr s" by simp
  from gc first have head: "now st0 - now st < timeoutMs" by simp
  from gc bd have c0: "now st0 - now st \<le> int L" by simp
  from stable_loop_frozen [OF fr bd room head refl refl]
  obtain e st' where
    r: "waitForStable_loop smp timeoutMs stableMs (now st) s (now st) st0 =
          (Inr \<lparr>stable = True, stable_elapsedMs = e\<rparr>, st')"
    and lo: "stableMs \<le> e"
    and hi: "e \<le> max (now st0 - now st + int L) (stableMs + pollInterval - 1 + int L)"
    by blast
  have "waitForStable smp timeoutMs stableMs st =
          (Inr \<lparr>stable = True, stable_elapsedMs = e\<rparr>, st')"
    using g x r by (simp add: waitForStable_def)
  moreover have "e < stableMs + pollInterval + 2 * int L"
    using hi c0 nn by (simp add: pollInterval_def max_def split: if_splits)
  ultimately show "\<exists>e st'. waitForStable smp timeoutMs stableMs st =
                 (Inr \<lparr>stable = True, stable_elapsedMs = e\<rparr>, st') \<and>
              stableMs \<le> e \<and> e < stableMs + pollInterval + 2 * int L"
    using lo by blast
qed

theorem waitForStable_frozen_witness:
  "(\<forall>k. fst (slow_screen k) = Inr ''$'') \<and> (\<forall>k. snd (slow_screen k) \<le> 30) \<and>
   (0::int) \<le> 500 \<and> 500 + pollInterval \<le> 5000 \<and>
   int (snd (slow_screen (calls clock_zero))) < 5000 \<and>
   (\<exists>e st'. waitForStable slow_screen 5000 500 clock_zero =
               (Inr \<lparr>stable = True, stable_elapsedMs = e\<rparr>, st') \<and>
            500 \<le> e \<and> e < 500 + pollInterval + 2 * int 30) \<and>
   waitForStable slow_screen 5000 500 clock_zero =
     (Inr \<lparr>stable = True, stable_elapsedMs = 580\<rparr>, \<lparr>now = 580, calls = 6\<rparr>)"
proof -
  have a: "\<forall>k. fst (slow_screen k) = Inr ''$''" by (simp add: slow_screen_def)
  have b: "\<forall>k. snd (slow_screen k) \<le> 30" by (simp add: slow_screen_def)
  have c: "(0::int) \<le> 500 \<and> 500 + pollInterval \<le> 5000" by (simp add: pollInterval_def)
  have d: "int (snd (slow_screen (calls clock_zero))) < 5000" by (simp add: slow_screen_def)
  have e: "waitForStable slow_screen 5000 500 clock_zero =
     (Inr \<lparr>stable = True, stable_elapsedMs = 580\<rparr>, \<lparr>now = 580, calls = 6\<rparr>)"
    by code_simp
  from a b c d e waitForStable_frozen [of slow_screen "''$''" 30 500 5000 clock_zero]
  show ?thesis by blast
qed

text \<open>
  C1 as stated fails: with \<open>stableMs = 50\<close> and \<open>timeoutMs = 60\<close> on a screen that
  never changes, the first test of stability comes at time 0, the loop sleeps until
  100, and the test of the timeout ends it there: not stable, after 100 ms. The same
  happens when a sample takes 30 ms, with \<open>stableMs = 100\<close> and \<open>timeoutMs = 150\<close>:
  the test at 60 fails, the loop sleeps until 160 and ends there.
\<close>

theorem waitForStable_counterexample:
  "(50::int) < 60 \<and>
   waitForStable frozen_screen 60 50 clock_zero =
     (Inr \<lparr>stable = False, stable_elapsedMs = 100\<rparr>, \<lparr>now = 100, calls = 2\<rparr>) \<and>
   (100::int) < 150 \<and>
   waitForStable slow_screen 150 100 clock_zero =
     (Inr \<lparr>stable = False, stable_elapsedMs = 160\<rparr>, \<lparr>now = 160, calls = 2\<rparr>)"
  by code_simp

end
